theory Spec2Isabelle
  imports Main "HOL-Library.Char_ord" "HOL-Library.List_Lexorder"
begin

section \<open>Durations and the decorrelated-jitter backoff (retry.go)\<close>

text \<open>
  A \<^verbatim>\<open>time.Duration\<close> is an \<^verbatim>\<open>int64\<close> count of nanoseconds. It is modelled as an
  \<^typ>\<open>int\<close> kept in the int64 range by \<open>wrap64\<close>, which is written around every
  arithmetic operation of the source that can leave the range (Go's signed arithmetic wraps).
  Go's \<^verbatim>\<open>/\<close> on integers truncates towards zero; \<open>quot\<close> is that division.
\<close>

type_synonym duration = int

definition wrap64 :: "int \<Rightarrow> int" where
  "wrap64 x = (x + 2 ^ 63) mod 2 ^ 64 - 2 ^ 63"

definition quot :: "int \<Rightarrow> int \<Rightarrow> int" where
  "quot a b = (if (a < 0) = (b < 0) then \<bar>a\<bar> div \<bar>b\<bar> else - (\<bar>a\<bar> div \<bar>b\<bar>))"

definition Second :: duration where
  "Second = 1000000000"

datatype panic =
    Int63nInvalidArgument   \<comment> \<open>\<^verbatim>\<open>rand.Int63n\<close> called with \<open>n \<le> 0\<close>\<close>
  | NilDereference          \<comment> \<open>a field or method of a nil pointer or nil interface is used\<close>

text \<open>
  \<^verbatim>\<open>random.Int63n(n)\<close> of \<^verbatim>\<open>math/rand\<close>: panics when \<open>n \<le> 0\<close>, otherwise returns a
  number of the half-open interval \<open>[0, n)\<close>. The generator is not part of the repository;
  the value it hands out for the argument \<open>n\<close> is the parameter \<open>src n\<close>, and
  \<open>rand_ok src\<close> is the library's contract for it.
\<close>

type_synonym rand_source = "int \<Rightarrow> int"

definition Int63n :: "rand_source \<Rightarrow> int \<Rightarrow> panic + int" where
  "Int63n src n = (if n \<le> 0 then Inl Int63nInvalidArgument else Inr (src n))"

definition rand_ok :: "rand_source \<Rightarrow> bool" where
  "rand_ok src \<longleftrightarrow> (\<forall>n. 0 < n \<longrightarrow> 0 \<le> src n \<and> src n < n)"

record waitAlgo =
  base :: duration   \<comment> \<open>base wait time\<close>
  cap :: duration    \<comment> \<open>maximum wait time\<close>

text \<open>
  Modelled from the spec: \<^verbatim>\<open>durationMin\<close> is called by \<^verbatim>\<open>decorr\<close> but defined in a file
  that is not among the sources; the spec writes \<open>min(cap, ...)\<close> for it.
\<close>

definition durationMin :: "duration \<Rightarrow> duration \<Rightarrow> duration" where
  "durationMin d1 d2 = min d1 d2"

definition randSecondDuration :: "rand_source \<Rightarrow> duration \<Rightarrow> panic + duration" where
  "randSecondDuration src n =
     (case Int63n src (quot n Second) of
        Inl p \<Rightarrow> Inl p
      | Inr v \<Rightarrow> Inr (wrap64 (v * Second)))"

text \<open>
  \<^verbatim>\<open>decorr\<close> ignores its \<^verbatim>\<open>attempt\<close> argument. The mutex it takes serialises the draws of
  concurrent callers and has no effect on the value computed from one draw.
\<close>

definition decorr :: "waitAlgo \<Rightarrow> rand_source \<Rightarrow> int \<Rightarrow> duration \<Rightarrow> panic + duration" where
  "decorr w src attempt sleep =
     (let t = wrap64 (wrap64 (3 * sleep) - base w) in
      if t > 0 then
        (case randSecondDuration src t of
           Inl p \<Rightarrow> Inl p
         | Inr d \<Rightarrow> Inr (durationMin (cap w) (wrap64 (d + base w))))
      else if t < 0 then
        (case randSecondDuration src (wrap64 (- t)) of
           Inl p \<Rightarrow> Inl p
         | Inr d \<Rightarrow> Inr (durationMin (cap w) (wrap64 (d + wrap64 (3 * sleep)))))
      else Inr (base w))"

definition defaultWaitAlgo :: waitAlgo where
  "defaultWaitAlgo = \<lparr> base = 5 * Second, cap = 160 * Second \<rparr>"

text \<open>
  A random source that obeys the contract for every argument: the raw value \<open>k\<close> reduced
  modulo \<open>n\<close>. It serves as the concrete generator of the examples below.
\<close>

definition fixed_source :: "int \<Rightarrow> rand_source" where
  "fixed_source k n = k mod n"

section \<open>Query strings: the operations of net/url used by retry.go\<close>

text \<open>
  \<^verbatim>\<open>url.Values\<close> is a \<^verbatim>\<open>map[string][]string\<close>. It is modelled as an association list
  with one entry per key; \<^verbatim>\<open>Encode\<close> sorts the keys, so the order of the entries never
  reaches a URL. The functions of this section follow the Go standard library
  (\<^verbatim>\<open>net/url\<close>, Go 1.17 and later, where \<^verbatim>\<open>Values.Has\<close> exists and a semicolon in a
  query is an error).
\<close>

type_synonym Values = "(string \<times> string list) list"

definition values_Get :: "Values \<Rightarrow> string \<Rightarrow> string" where
  "values_Get v key = (case map_of v key of None \<Rightarrow> [] | Some [] \<Rightarrow> [] | Some (x # _) \<Rightarrow> x)"

definition values_Has :: "Values \<Rightarrow> string \<Rightarrow> bool" where
  "values_Has v key = (map_of v key \<noteq> None)"

definition values_Del :: "Values \<Rightarrow> string \<Rightarrow> Values" where
  "values_Del v key = filter (\<lambda>kv. fst kv \<noteq> key) v"

definition values_Add :: "Values \<Rightarrow> string \<Rightarrow> string \<Rightarrow> Values" where
  "values_Add v key val =
     (case map_of v key of
        None \<Rightarrow> v @ [(key, [val])]
      | Some _ \<Rightarrow> map (\<lambda>kv. if fst kv = key then (fst kv, snd kv @ [val]) else kv) v)"

datatype url_error =
    InvalidSemicolon          \<comment> \<open>"invalid semicolon separator in query"\<close>
  | EscapeError string        \<comment> \<open>\<^verbatim>\<open>url.EscapeError\<close>: the offending escape\<close>

definition ishex :: "char \<Rightarrow> bool" where
  "ishex c \<longleftrightarrow> c \<in> set ''0123456789abcdefABCDEF''"

definition unhex :: "char \<Rightarrow> nat" where
  "unhex c =
     (if c \<in> set ''0123456789'' then of_char c - 48
      else if c \<in> set ''abcdef'' then of_char c - 97 + 10
      else if c \<in> set ''ABCDEF'' then of_char c - 65 + 10
      else 0)"

text \<open>
  \<^verbatim>\<open>QueryUnescape\<close>: \<^verbatim>\<open>%XY\<close> becomes the byte with the hexadecimal value \<open>XY\<close>,
  \<^verbatim>\<open>+\<close> becomes a space; a \<^verbatim>\<open>%\<close> that is not followed by two hexadecimal digits is an
  error carrying at most three bytes from the \<^verbatim>\<open>%\<close> on.
\<close>

fun QueryUnescape :: "string \<Rightarrow> url_error + string" where
  "QueryUnescape [] = Inr []"
| "QueryUnescape (c # s) =
     (if c = CHR ''%'' then
        (case s of
           h # l # rest \<Rightarrow>
             if ishex h \<and> ishex l then
               (case QueryUnescape rest of
                  Inl e \<Rightarrow> Inl e
                | Inr r \<Rightarrow> Inr (char_of (unhex h * 16 + unhex l) # r))
             else Inl (EscapeError (take 3 (c # s)))
         | _ \<Rightarrow> Inl (EscapeError (take 3 (c # s))))
      else
        (case QueryUnescape s of
           Inl e \<Rightarrow> Inl e
         | Inr r \<Rightarrow> Inr ((if c = CHR ''+'' then CHR '' '' else c) # r)))"

definition shouldEscape :: "char \<Rightarrow> bool" where
  "shouldEscape c \<longleftrightarrow>
     \<not> (c \<in> set ''abcdefghijklmnopqrstuvwxyzABCDEFGHIJKLMNOPQRSTUVWXYZ0123456789''
        \<or> c \<in> set ''-_.~'')"

definition upperhex :: string where
  "upperhex = ''0123456789ABCDEF''"

fun QueryEscape :: "string \<Rightarrow> string" where
  "QueryEscape [] = []"
| "QueryEscape (c # s) =
     (if shouldEscape c then
        (if c = CHR '' '' then CHR ''+'' # QueryEscape s
         else CHR ''%'' # upperhex ! (of_char c div 16) # upperhex ! (of_char c mod 16)
                # QueryEscape s)
      else c # QueryEscape s)"

text \<open>\<^verbatim>\<open>strings.Cut\<close> at a one-byte separator.\<close>

fun Cut :: "char \<Rightarrow> string \<Rightarrow> string \<times> string" where
  "Cut sep [] = ([], [])"
| "Cut sep (c # s) =
     (if c = sep then ([], s) else (case Cut sep s of (before, after) \<Rightarrow> (c # before, after)))"

lemma Cut_after_le: "Cut sep s = (a, b) \<Longrightarrow> length b \<le> length s"
  by (induction s arbitrary: a b) (auto split: if_splits prod.splits)

lemma Cut_after_less: "Cut sep s = (a, b) \<Longrightarrow> s \<noteq> [] \<Longrightarrow> length b < length s"
  by (cases s) (auto split: if_splits prod.splits dest: Cut_after_le)

text \<open>
  The loop of \<^verbatim>\<open>parseQuery\<close>: it consumes the query one \<^verbatim>\<open>&\<close>-separated piece at a
  time, skips a piece that is empty, holds a semicolon or does not unescape, and keeps the
  error to report (a semicolon always replaces it, an escape error only sets it when none is
  recorded yet).
\<close>

function parseQuery :: "Values \<Rightarrow> url_error option \<Rightarrow> string \<Rightarrow> Values \<times> url_error option" where
  "parseQuery m err query =
     (if query = [] then (m, err)
      else
        (case Cut CHR ''&'' query of
           (piece, rest) \<Rightarrow>
             if CHR '';'' \<in> set piece then parseQuery m (Some InvalidSemicolon) rest
             else if piece = [] then parseQuery m err rest
             else
               (case Cut CHR ''='' piece of
                  (k, v) \<Rightarrow>
                    (case QueryUnescape k of
                       Inl e \<Rightarrow> parseQuery m (if err = None then Some e else err) rest
                     | Inr key \<Rightarrow>
                         (case QueryUnescape v of
                            Inl e \<Rightarrow> parseQuery m (if err = None then Some e else err) rest
                          | Inr val \<Rightarrow> parseQuery (values_Add m key val) err rest)))))"
  by pat_completeness auto
termination
  by (relation "measure (\<lambda>(m, err, query). length query)")
     (auto dest: Cut_after_less [OF sym])

declare parseQuery.simps [simp del]

definition ParseQuery :: "string \<Rightarrow> Values \<times> url_error option" where
  "ParseQuery query = parseQuery [] None query"

definition values_Encode :: "Values \<Rightarrow> string" where
  "values_Encode v =
     (let pairs = concat (map (\<lambda>kv. map (\<lambda>x. QueryEscape (fst kv) @ ''='' @ QueryEscape x) (snd kv))
                              (sort_key fst v))
      in case pairs of [] \<Rightarrow> [] | p # ps \<Rightarrow> p @ concat (map (\<lambda>q. ''&'' @ q) ps))"

text \<open>\<^verbatim>\<open>strings.HasPrefix\<close>, \<^verbatim>\<open>strings.HasSuffix\<close> and \<^verbatim>\<open>strconv.Itoa\<close>.\<close>

definition HasPrefix :: "string \<Rightarrow> string \<Rightarrow> bool" where
  "HasPrefix s p \<longleftrightarrow> length p \<le> length s \<and> take (length p) s = p"

definition HasSuffix :: "string \<Rightarrow> string \<Rightarrow> bool" where
  "HasSuffix s p \<longleftrightarrow> length p \<le> length s \<and> drop (length s - length p) s = p"

fun digits :: "nat \<Rightarrow> string" where
  "digits n = (if n < 10 then [char_of (48 + n)] else digits (n div 10) @ [char_of (48 + n mod 10)])"

declare digits.simps [simp del]

definition Itoa :: "int \<Rightarrow> string" where
  "Itoa i = (if i < 0 then CHR ''-'' # digits (nat (- i)) else digits (nat i))"


section \<open>The URL and its mutators (retry.go)\<close>

text \<open>
  Of a \<^verbatim>\<open>*url.URL\<close> the retry code reads \<^verbatim>\<open>Path\<close> and reads and writes \<^verbatim>\<open>RawQuery\<close>.
  Every mutator holds a pointer to the one URL object of the executor (\<^verbatim>\<open>r.fullURL\<close>),
  writes its \<^verbatim>\<open>RawQuery\<close> in place and returns the same pointer; the model passes that
  one object in and out. What a mutator keeps of its own is the parsed query
  (\<^verbatim>\<open>urlValues\<close>), which \<^verbatim>\<open>Del\<close> and \<^verbatim>\<open>Add\<close> update in place.
\<close>

record url =
  Path :: string
  RawQuery :: string

definition Query :: "url \<Rightarrow> Values" where
  \<comment> \<open>\<^verbatim>\<open>URL.Query()\<close>: the parsed query, the error dropped\<close>
  "Query u = fst (ParseQuery (RawQuery u))"

definition requestGUIDKey :: string where
  "requestGUIDKey = ''request_guid''"

definition retryCountKey :: string where
  "retryCountKey = ''retryCount''"

definition retryReasonKey :: string where
  "retryReasonKey = ''retryReason''"

definition clientStartTimeKey :: string where
  "clientStartTimeKey = ''clientStartTime''"

text \<open>
  Constants that retry.go uses and other files of the package or the platform define:
  they are parameters of the model.
\<close>

record package_consts =
  queryRequestPath :: string        \<comment> \<open>path prefix of a query request\<close>
  ErrOCSPStatusRevoked :: int       \<comment> \<open>driver error number of a revoked certificate\<close>
  GOOS :: string                    \<comment> \<open>\<^verbatim>\<open>runtime.GOOS\<close>\<close>

datatype ConfigBool = configBoolNotSet | ConfigBoolTrue | ConfigBoolFalse

record Config =
  IncludeRetryReason :: ConfigBool

definition isQueryRequest :: "package_consts \<Rightarrow> url \<Rightarrow> bool" where
  "isQueryRequest pc u = HasPrefix (Path u) (queryRequestPath pc)"

datatype requestGUIDReplacer =
    transientReplace
  | requestGUIDReplace Values

definition newRequestGUIDReplace :: "url \<Rightarrow> requestGUIDReplacer" where
  "newRequestGUIDReplace u =
     (case ParseQuery (RawQuery u) of
        (vals, Some e) \<Rightarrow> transientReplace
      | (vals, None) \<Rightarrow>
          if length (values_Get vals requestGUIDKey) = 0 then transientReplace
          else requestGUIDReplace vals)"

text \<open>
  \<^verbatim>\<open>replace\<close>: the argument \<open>uuid\<close> is the text of the identifier that this call obtains
  from \<^verbatim>\<open>NewUUID()\<close>; the transient replacer generates none.
\<close>

fun replace :: "requestGUIDReplacer \<Rightarrow> string \<Rightarrow> url \<Rightarrow> requestGUIDReplacer \<times> url" where
  "replace transientReplace uuid u = (transientReplace, u)"
| "replace (requestGUIDReplace vals) uuid u =
     (let vals' = values_Add (values_Del vals requestGUIDKey) requestGUIDKey uuid
      in (requestGUIDReplace vals', u\<lparr>RawQuery := values_Encode vals'\<rparr>))"

datatype retryCountUpdater =
    transientRetryCountUpdater
  | retryCountUpdate Values

fun retryCount_replaceOrAdd :: "retryCountUpdater \<Rightarrow> int \<Rightarrow> url \<Rightarrow> retryCountUpdater \<times> url" where
  "retryCount_replaceOrAdd transientRetryCountUpdater retry u = (transientRetryCountUpdater, u)"
| "retryCount_replaceOrAdd (retryCountUpdate vals) retry u =
     (let vals' = values_Add (values_Del vals retryCountKey) retryCountKey (Itoa retry)
      in (retryCountUpdate vals', u\<lparr>RawQuery := values_Encode vals'\<rparr>))"

definition newRetryCountUpdater :: "package_consts \<Rightarrow> url \<Rightarrow> retryCountUpdater" where
  "newRetryCountUpdater pc u =
     (if \<not> isQueryRequest pc u then transientRetryCountUpdater
      else
        (case ParseQuery (RawQuery u) of
           (vals, Some e) \<Rightarrow> transientRetryCountUpdater
         | (vals, None) \<Rightarrow> retryCountUpdate vals))"

datatype retryReasonUpdater =
    transientRetryReasonUpdater
  | retryReasonUpdate

fun retryReason_replaceOrAdd :: "retryReasonUpdater \<Rightarrow> int \<Rightarrow> url \<Rightarrow> url" where
  "retryReason_replaceOrAdd transientRetryReasonUpdater reason u = u"
| "retryReason_replaceOrAdd retryReasonUpdate reason u =
     u\<lparr>RawQuery :=
         values_Encode (values_Add (values_Del (Query u) retryReasonKey) retryReasonKey (Itoa reason))\<rparr>"

definition newRetryReasonUpdater :: "package_consts \<Rightarrow> url \<Rightarrow> Config option \<Rightarrow> retryReasonUpdater" where
  "newRetryReasonUpdater pc u cfg =
     (if \<not> isQueryRequest pc u then transientRetryReasonUpdater
      else if (case cfg of None \<Rightarrow> False | Some c \<Rightarrow> IncludeRetryReason c = ConfigBoolFalse)
        then transientRetryReasonUpdater
      else retryReasonUpdate)"

definition ensureClientStartTimeIsSet :: "package_consts \<Rightarrow> url \<Rightarrow> string \<Rightarrow> url" where
  "ensureClientStartTimeIsSet pc u clientStartTime =
     (if \<not> isQueryRequest pc u then u
      else if values_Has (Query u) clientStartTimeKey then u
      else u\<lparr>RawQuery := values_Encode (values_Add (Query u) clientStartTimeKey clientStartTime)\<rparr>)"

section \<open>Errors and the classifier (retry.go)\<close>

text \<open>
  What the classifier can tell apart in the cause that a \<^verbatim>\<open>*url.Error\<close> wraps: the two
  context errors (compared with \<^verbatim>\<open>==\<close>), the dynamic types \<^verbatim>\<open>*SnowflakeError\<close> (with its
  \<^verbatim>\<open>Number\<close>), \<^verbatim>\<open>x509.CertificateInvalidError\<close> and \<^verbatim>\<open>x509.UnknownAuthorityError\<close>,
  and for a value of any other type the text that its \<^verbatim>\<open>Error()\<close> method returns.
  Each constructor with a \<^typ>\<open>string\<close> carries that text.
\<close>

datatype cause =
    DeadlineExceeded                  \<comment> \<open>\<^verbatim>\<open>context.DeadlineExceeded\<close>\<close>
  | Canceled                          \<comment> \<open>\<^verbatim>\<open>context.Canceled\<close>\<close>
  | SnowflakeError int string         \<comment> \<open>\<^verbatim>\<open>*SnowflakeError\<close>: \<^verbatim>\<open>Number\<close> and text\<close>
  | CertificateInvalidError string
  | UnknownAuthorityError string
  | OtherCause string                 \<comment> \<open>an error of any other type (connection refused, reset, DNS, ...)\<close>

fun cause_Error :: "cause \<Rightarrow> string" where
  "cause_Error DeadlineExceeded = ''context deadline exceeded''"
| "cause_Error Canceled = ''context canceled''"
| "cause_Error (SnowflakeError number text) = text"
| "cause_Error (CertificateInvalidError text) = text"
| "cause_Error (UnknownAuthorityError text) = text"
| "cause_Error (OtherCause text) = text"

text \<open>
  An \<^verbatim>\<open>error\<close> value seen by the retry loop: a \<^verbatim>\<open>*url.Error\<close> with its fields
  \<^verbatim>\<open>Op\<close>, \<^verbatim>\<open>URL\<close> and \<^verbatim>\<open>Err\<close> (which may be nil), an error that is not wrapped, or
  one of the two errors that \<^verbatim>\<open>execute\<close> builds itself with \<^verbatim>\<open>fmt.Errorf\<close>, given by the
  values formatted into them.
\<close>

datatype go_error =
    URLError string string "cause option"
  | Plain cause
  | TimeoutStatus duration int      \<comment> \<open>"timeout after %s. HTTP Status: %v. Hanging?"\<close>
  | TimeoutHanging duration         \<comment> \<open>"timeout after %s. Hanging?"\<close>

fun isURLError :: "go_error \<Rightarrow> bool" where
  "isURLError (URLError op u c) = True"
| "isURLError e = False"

fun isRetryableError :: "package_consts \<Rightarrow> go_error \<Rightarrow> panic + bool \<times> go_error" where
  "isRetryableError pc (URLError op u None) = Inl NilDereference"
| "isRetryableError pc (URLError op u (Some c)) =
     (if c = DeadlineExceeded \<or> c = Canceled then Inr (True, Plain c)
      else if (case c of SnowflakeError number text \<Rightarrow> number = ErrOCSPStatusRevoked pc | _ \<Rightarrow> False)
        then Inr (True, URLError op u (Some c))
      else if (case c of CertificateInvalidError text \<Rightarrow> True | _ \<Rightarrow> False)
        then Inr (True, URLError op u (Some c))
      else if (case c of UnknownAuthorityError text \<Rightarrow> True | _ \<Rightarrow> False)
        then Inr (True, URLError op u (Some c))
      else if GOOS pc = ''darwin'' \<and> HasPrefix (cause_Error c) ''x509:''
              \<and> HasSuffix (cause_Error c) ''certificate is expired''
        then Inr (True, URLError op u (Some c))
      else Inr (False, URLError op u (Some c)))"
| "isRetryableError pc e = Inr (False, e)"

section \<open>The retry loop (retry.go, \<^verbatim>\<open>retryHTTP.execute\<close>)\<close>

record response =
  StatusCode :: int

text \<open>
  The fields of \<^verbatim>\<open>retryHTTP\<close> that \<^verbatim>\<open>execute\<close> reads as data. \<^verbatim>\<open>currentTime\<close> is the
  value that \<^verbatim>\<open>r.currentTimeProvider.currentTime()\<close> returns. The collaborators that are
  called once per iteration (\<^verbatim>\<open>bodyCreator\<close>, \<^verbatim>\<open>req\<close>, \<^verbatim>\<open>client.Do\<close>, the random source,
  \<^verbatim>\<open>NewUUID\<close>, the context) are given by what they answer in each iteration: one
  \<open>attempt\<close> per iteration of the loop.
\<close>

record retryHTTP =
  fullURL :: url
  headers :: "(string \<times> string) list"
  timeout :: duration
  raise4XX :: bool
  cfg :: "Config option"
  currentTime :: int

record attempt =
  body_result :: "go_error option"
    \<comment> \<open>the error of \<^verbatim>\<open>r.bodyCreator()\<close>, \<open>None\<close> when it is nil\<close>
  req_result :: "go_error + bool"
    \<comment> \<open>\<^verbatim>\<open>r.req(...)\<close>: its error, or whether the request it returns is non-nil\<close>
  do_result :: "response option \<times> go_error option"
    \<comment> \<open>\<^verbatim>\<open>r.client.Do(req)\<close>: response and error, each may be nil\<close>
  rand :: rand_source
    \<comment> \<open>the answer of the shared generator to the draw of this iteration\<close>
  uuid :: string
    \<comment> \<open>\<^verbatim>\<open>NewUUID().String()\<close> of this iteration\<close>
  ctx_done :: "go_error option"
    \<comment> \<open>\<open>Some e\<close>: the context is done before the sleep timer fires, and \<^verbatim>\<open>ctx.Err()\<close> is \<open>e\<close>\<close>

text \<open>
  The local variables of \<^verbatim>\<open>execute\<close> that live across iterations, the URL object that
  \<^verbatim>\<open>r.fullURL\<close> points to, and two observation logs: \<open>sent\<close>, the URL of every call of
  \<^verbatim>\<open>client.Do\<close>, and \<open>slept\<close>, the duration of every timer started. \<^verbatim>\<open>retryCounter\<close> is
  a Go \<^verbatim>\<open>int\<close>; it grows by one per iteration and is modelled without a bound.
\<close>

record loop_state =
  r_fullURL :: url
  totalTimeout :: duration
  retryCounter :: int
  sleepTime :: duration
  res :: "response option"
  guidReplacer :: "requestGUIDReplacer option"
  countUpdater :: "retryCountUpdater option"
  reasonUpdater :: "retryReasonUpdater option"
  sent :: "url list"
  slept :: "duration list"

datatype outcome =
    Returned "response option" "go_error option"   \<comment> \<open>\<^verbatim>\<open>return res, err\<close>\<close>
  | Panicked panic

text \<open>
  Lines 292 to 329: build body and request, send, classify. The result is either the end
  of \<^verbatim>\<open>execute\<close> or the state together with the error of this iteration (the variable
  \<^verbatim>\<open>err\<close> of the loop body), with which the retry handling goes on.
\<close>

definition try_once ::
  "package_consts \<Rightarrow> retryHTTP \<Rightarrow> attempt \<Rightarrow> loop_state
     \<Rightarrow> (outcome \<times> loop_state) + (loop_state \<times> go_error option)" where
  "try_once pc r a st =
     (case body_result a of
        Some e \<Rightarrow> Inl (Returned None (Some e), st)
      | None \<Rightarrow>
          (case req_result a of
             Inl e \<Rightarrow> Inl (Returned None (Some e), st)
           | Inr nonnil \<Rightarrow>
               if \<not> nonnil \<and> headers r \<noteq> [] then Inl (Panicked NilDereference, st)
               else
                 (case do_result a of
                    (resp, err) \<Rightarrow>
                      (let st1 = st\<lparr>res := resp, sent := sent st @ [r_fullURL st]\<rparr> in
                       case err of
                         Some e \<Rightarrow>
                           (case isRetryableError pc e of
                              Inl p \<Rightarrow> Inl (Panicked p, st1)
                            | Inr (doExit, e') \<Rightarrow>
                                if doExit then Inl (Returned resp (Some e'), st1)
                                else Inr (st1, Some e))
                       | None \<Rightarrow>
                           (case resp of
                              None \<Rightarrow> Inl (Panicked NilDereference, st1)
                            | Some x \<Rightarrow>
                                if StatusCode x = 200
                                   \<or> raise4XX r \<and> StatusCode x \<ge> 400 \<and> StatusCode x < 500
                                       \<and> StatusCode x \<noteq> 429
                                then Inl (Returned (Some x) None, st1)
                                else Inr (st1, None))))))"

text \<open>Lines 338 to 344: what is returned when the budget is used up.\<close>

definition timeoutResult :: "retryHTTP \<Rightarrow> response option \<Rightarrow> go_error option \<Rightarrow> outcome" where
  "timeoutResult r resp err =
     (case err of
        Some e \<Rightarrow> Returned None (Some e)
      | None \<Rightarrow>
          (case resp of
             Some x \<Rightarrow> Returned None (Some (TimeoutStatus (timeout r) (StatusCode x)))
           | None \<Rightarrow> Returned None (Some (TimeoutHanging (timeout r)))))"

text \<open>
  Lines 347 to 364: the counter is incremented, each mutator is built on first use and
  applied, in the order of the source.
\<close>

definition mutateURL :: "package_consts \<Rightarrow> retryHTTP \<Rightarrow> attempt \<Rightarrow> string \<Rightarrow> loop_state \<Rightarrow> loop_state" where
  "mutateURL pc r a clientStartTime st =
     (let counter = retryCounter st + 1;
          g = (case guidReplacer st of None \<Rightarrow> newRequestGUIDReplace (r_fullURL st) | Some x \<Rightarrow> x)
      in case replace g (uuid a) (r_fullURL st) of
           (g', u1) \<Rightarrow>
             (let c = (case countUpdater st of None \<Rightarrow> newRetryCountUpdater pc u1 | Some x \<Rightarrow> x)
              in case retryCount_replaceOrAdd c counter u1 of
                   (c', u2) \<Rightarrow>
                     (let s = (case reasonUpdater st of
                                 None \<Rightarrow> newRetryReasonUpdater pc u2 (cfg r) | Some x \<Rightarrow> x);
                          retryReason = (case res st of None \<Rightarrow> 0 | Some x \<Rightarrow> StatusCode x);
                          u3 = retryReason_replaceOrAdd s retryReason u2;
                          u4 = ensureClientStartTimeIsSet pc u3 clientStartTime
                      in st\<lparr>r_fullURL := u4, retryCounter := counter, guidReplacer := Some g',
                            countUpdater := Some c', reasonUpdater := Some s\<rparr>)))"

text \<open>
  Lines 331 to 375: backoff, budget, URL mutation and the wait that the context can cut
  short.
\<close>

definition retry_handling ::
  "package_consts \<Rightarrow> retryHTTP \<Rightarrow> attempt \<Rightarrow> string \<Rightarrow> loop_state \<Rightarrow> go_error option
     \<Rightarrow> (outcome \<times> loop_state) + loop_state" where
  "retry_handling pc r a clientStartTime st err =
     (case decorr defaultWaitAlgo (rand a) (retryCounter st) (sleepTime st) of
        Inl p \<Rightarrow> Inl (Panicked p, st)
      | Inr d \<Rightarrow>
          (let remaining = (if totalTimeout st > 0 then wrap64 (totalTimeout st - d)
                            else totalTimeout st);
               st1 = st\<lparr>sleepTime := d, totalTimeout := remaining\<rparr>
           in if totalTimeout st > 0 \<and> remaining \<le> 0
              then Inl (timeoutResult r (res st) err, st1)
              else
                (let st2 = mutateURL pc r a clientStartTime st1;
                     st3 = st2\<lparr>slept := slept st2 @ [d]\<rparr>
                 in case ctx_done a of
                      Some e \<Rightarrow> Inl (Returned (res st3) (Some e), st3)
                    | None \<Rightarrow> Inr st3)))"

text \<open>
  The loop runs for as long as the collaborators make it: it is unfolded along the list
  of their answers, and \<open>None\<close> says that the list ended before \<^verbatim>\<open>execute\<close> returned.
\<close>

fun execute_loop ::
  "package_consts \<Rightarrow> retryHTTP \<Rightarrow> string \<Rightarrow> attempt list \<Rightarrow> loop_state
     \<Rightarrow> (outcome \<times> loop_state) option" where
  "execute_loop pc r clientStartTime [] st = None"
| "execute_loop pc r clientStartTime (a # script) st =
     (case try_once pc r a st of
        Inl fin \<Rightarrow> Some fin
      | Inr (st1, err) \<Rightarrow>
          (case retry_handling pc r a clientStartTime st1 err of
             Inl fin \<Rightarrow> Some fin
           | Inr st2 \<Rightarrow> execute_loop pc r clientStartTime script st2))"

definition initial_state :: "retryHTTP \<Rightarrow> loop_state" where
  "initial_state r =
     \<lparr> r_fullURL = fullURL r, totalTimeout = timeout r, retryCounter = 0, sleepTime = 0,
       res = None, guidReplacer = None, countUpdater = None, reasonUpdater = None,
       sent = [], slept = [] \<rparr>"

definition execute :: "package_consts \<Rightarrow> retryHTTP \<Rightarrow> attempt list \<Rightarrow> (outcome \<times> loop_state) option" where
  "execute pc r script = execute_loop pc r (Itoa (currentTime r)) script (initial_state r)"

section \<open>The session heartbeat\<close>

text \<open>
  Modelled from the spec: \<^verbatim>\<open>heartbeatMain\<close> is defined in a file that is not among the
  sources (only its unit test is). The spec gives its behaviour by the kind of the
  keep-alive response: on success nothing is done; on "session expired" the session-renewal
  capability is invoked and its error, if any, is surfaced; a malformed body surfaces a
  parse error; any other application-level error surfaces a driver error "failed to
  heartbeat" that carries the numeric code of the failure payload. The test reads the
  number of that driver error and expects \<^verbatim>\<open>ErrFailedToHeartbeat\<close>, a constant that is a
  parameter here.
\<close>

datatype heartbeat_response =
    HeartbeatSuccess
  | SessionExpired
  | MalformedBody
  | ApplicationError int        \<comment> \<open>the numeric code of the failure payload\<close>

datatype heartbeat_error =
    RenewalError go_error       \<comment> \<open>the error of the session-renewal capability\<close>
  | ParseError
  | DriverError int int         \<comment> \<open>driver error: its \<^verbatim>\<open>Number\<close>, and the code it carries\<close>

fun heartbeatMain :: "int \<Rightarrow> heartbeat_response \<Rightarrow> go_error option \<Rightarrow> heartbeat_error option" where
  "heartbeatMain ErrFailedToHeartbeat HeartbeatSuccess renew = None"
| "heartbeatMain ErrFailedToHeartbeat SessionExpired renew =
     (case renew of None \<Rightarrow> None | Some e \<Rightarrow> Some (RenewalError e))"
| "heartbeatMain ErrFailedToHeartbeat MalformedBody renew = Some ParseError"
| "heartbeatMain ErrFailedToHeartbeat (ApplicationError code) renew =
     Some (DriverError ErrFailedToHeartbeat code)"

section \<open>Example inputs\<close>

definition example_consts :: package_consts where
  "example_consts =
     \<lparr> queryRequestPath = ''/queries/v1/query-request'', ErrOCSPStatusRevoked = 254001,
       GOOS = ''linux'' \<rparr>"


definition heartbeat_url :: url where
  "heartbeat_url = \<lparr> Path = ''/session/heartbeat'', RawQuery = ''request_guid=abc&bad=%zz'' \<rparr>"

definition query_url :: url where
  "query_url = \<lparr> Path = ''/queries/v1/query-request'', RawQuery = ''request_guid=g0'' \<rparr>"

definition example_request :: "url \<Rightarrow> duration \<Rightarrow> bool \<Rightarrow> retryHTTP" where
  "example_request u t raise =
     \<lparr> fullURL = u, headers = [], timeout = t, raise4XX = raise, cfg = None, currentTime = 1700 \<rparr>"

definition status :: "int \<Rightarrow> response option" where
  "status n = Some \<lparr> StatusCode = n \<rparr>"

definition connection_refused :: go_error where
  "connection_refused =
     URLError ''Post'' ''https://host/session/heartbeat''
       (Some (OtherCause ''dial tcp 10.0.0.1:443: connect: connection refused''))"

text \<open>
  One iteration in which body and request are built, \<^verbatim>\<open>client.Do\<close> answers \<open>(resp, err)\<close>,
  the generator answers with \<open>k\<close> reduced to the range asked for, \<^verbatim>\<open>NewUUID\<close> gives \<open>g\<close>
  and the context is not done.
\<close>

definition example_attempt :: "response option \<Rightarrow> go_error option \<Rightarrow> int \<Rightarrow> string \<Rightarrow> attempt" where
  "example_attempt resp err k g =
     \<lparr> body_result = None, req_result = Inr True, do_result = (resp, err),
       rand = fixed_source k, uuid = g, ctx_done = None \<rparr>"

text \<open>
  A sequence of applications of the three mutators that are reserved to query requests, each
  built for the URL it is applied to.
\<close>

datatype mutation =
    UpdateRetryCount int
  | UpdateRetryReason "Config option" int
  | SetClientStartTime string

fun apply_mutation :: "package_consts \<Rightarrow> url \<Rightarrow> mutation \<Rightarrow> url" where
  "apply_mutation pc u (UpdateRetryCount n) =
     snd (retryCount_replaceOrAdd (newRetryCountUpdater pc u) n u)"
| "apply_mutation pc u (UpdateRetryReason c n) =
     retryReason_replaceOrAdd (newRetryReasonUpdater pc u c) n u"
| "apply_mutation pc u (SetClientStartTime t) = ensureClientStartTimeIsSet pc u t"


text \<open>
  A URL outside the query-request path whose query parses and carries a tracking
  identifier, three iterations (503, 503, 200) with the identifiers \<open>g1\<close>, \<open>g2\<close>,
  \<open>g3\<close> at hand, and the state in which \<^verbatim>\<open>execute\<close> leaves the loop on them.
\<close>

definition tracked_url :: url where
  "tracked_url = \<lparr> Path = ''/session/heartbeat'', RawQuery = ''request_guid=g0&requestId=r'' \<rparr>"

definition three_attempts :: "attempt list" where
  "three_attempts =
     [example_attempt (status 503) None 0 ''g1'', example_attempt (status 503) None 0 ''g2'',
      example_attempt (status 200) None 0 ''g3'']"

definition tracked_final :: loop_state where
  "tracked_final =
     \<lparr> r_fullURL = \<lparr> Path = ''/session/heartbeat'', RawQuery = ''requestId=r&request_guid=g2'' \<rparr>,
       totalTimeout = 0, retryCounter = 2, sleepTime = 0, res = status 200,
       guidReplacer = Some (requestGUIDReplace [(''requestId'', [''r'']), (''request_guid'', [''g2''])]),
       countUpdater = Some transientRetryCountUpdater,
       reasonUpdater = Some transientRetryReasonUpdater,
       sent = [\<lparr> Path = ''/session/heartbeat'', RawQuery = ''request_guid=g0&requestId=r'' \<rparr>,
               \<lparr> Path = ''/session/heartbeat'', RawQuery = ''requestId=r&request_guid=g1'' \<rparr>,
               \<lparr> Path = ''/session/heartbeat'', RawQuery = ''requestId=r&request_guid=g2'' \<rparr>],
       slept = [0, 0] \<rparr>"

text \<open>
  The sleeps that the loop passes to \<^verbatim>\<open>decorr\<close>: a whole number of seconds between zero
  and the cap of the default configuration.
\<close>

definition whole_seconds :: "duration \<Rightarrow> bool" where
  "whole_seconds d \<longleftrightarrow> (\<exists>k. d = k * Second \<and> 0 \<le> k \<and> k \<le> 160)"

section \<open>The encoded query as a list of pairs\<close>

text \<open>
  \<^verbatim>\<open>Encode\<close> writes one escaped \<open>key=value\<close> per value, the pieces joined by \<^verbatim>\<open>&\<close>.
  The three functions below name these parts, for the proof that parsing an encoded query
  gives the values back.
\<close>

fun join_amp :: "string list \<Rightarrow> string" where
  "join_amp [] = []"
| "join_amp [p] = p"
| "join_amp (p # q # qs) = p @ CHR ''&'' # join_amp (q # qs)"

definition enc_pair :: "string \<times> string \<Rightarrow> string" where
  "enc_pair p = QueryEscape (fst p) @ CHR ''='' # QueryEscape (snd p)"

definition flat_pairs :: "Values \<Rightarrow> (string \<times> string) list" where
  "flat_pairs v = concat (map (\<lambda>kv. map (Pair (fst kv)) (snd kv)) v)"

section \<open>An invariant of the loop\<close>

text \<open>
  For an operation on the URL \<open>u0\<close> outside the query-request path, whose query parses to
  \<open>vals\<close>: the URL object differs from \<open>u0\<close> in the query only; before the first retry it
  is \<open>u0\<close> itself; the tracking replacer, once built, is the active one and its parsed
  query agrees with \<open>vals\<close> on every key but the tracking identifier; the two updaters of
  query requests, once built, are the transient ones.
\<close>

definition guid_inv :: "url \<Rightarrow> Values \<Rightarrow> loop_state \<Rightarrow> bool" where
  "guid_inv u0 vals st \<longleftrightarrow>
     (\<exists>q. r_fullURL st = u0\<lparr>RawQuery := q\<rparr>)
     \<and> (case guidReplacer st of
          None \<Rightarrow> r_fullURL st = u0
        | Some transientReplace \<Rightarrow> False
        | Some (requestGUIDReplace v) \<Rightarrow>
            values_Del v requestGUIDKey = values_Del vals requestGUIDKey)
     \<and> (countUpdater st = None \<or> countUpdater st = Some transientRetryCountUpdater)
     \<and> (reasonUpdater st = None \<or> reasonUpdater st = Some transientRetryReasonUpdater)"


text \<open>
  For an operation on a query request \<open>u0\<close>, from the first retry on: a query
  \<open>carries g\<close> when it has one entry per key and the identifier \<open>g\<close> as the only value
  of the tracking key; the URL is \<open>u0\<close> with the encoding of such a query, and the
  retry-count updater holds such a query.
\<close>

definition carries :: "string \<Rightarrow> Values \<Rightarrow> bool" where
  "carries g v \<longleftrightarrow> distinct (map fst v) \<and> map_of v requestGUIDKey = Some [g]"

definition stale_inv :: "url \<Rightarrow> string \<Rightarrow> loop_state \<Rightarrow> bool" where
  "stale_inv u0 g st \<longleftrightarrow>
     (\<exists>z. r_fullURL st = u0\<lparr>RawQuery := values_Encode z\<rparr> \<and> carries g z)
     \<and> (\<exists>v. guidReplacer st = Some (requestGUIDReplace v))
     \<and> (\<exists>w. countUpdater st = Some (retryCountUpdate w) \<and> carries g w)
     \<and> reasonUpdater st \<noteq> None"

section \<open>Properties of the backoff\<close>

lemma wrap64_id: "- (2 ^ 63) \<le> x \<Longrightarrow> x < 2 ^ 63 \<Longrightarrow> wrap64 x = x"
  by (simp add: wrap64_def)

lemma quot_pos: "0 \<le> a \<Longrightarrow> quot a Second = a div Second"
  by (simp add: quot_def Second_def)

lemma rand_ok_fixed_source: "rand_ok (fixed_source k)"
  by (simp add: rand_ok_def fixed_source_def)

lemma randSecondDuration_ok:
  assumes "rand_ok src" "Second \<le> n" "n < 2 ^ 63"
  shows "\<exists>d. randSecondDuration src n = Inr d \<and> 0 \<le> d \<and> d < n \<and> d = src (n div Second) * Second"
proof -
  have n0: "0 \<le> n" using assms(2) by (simp add: Second_def)
  have q: "quot n Second = n div Second" using n0 by (rule quot_pos)
  have qpos: "0 < n div Second" using assms(2) by (simp add: Second_def)
  have v: "0 \<le> src (n div Second)" "src (n div Second) < n div Second"
    using assms(1) qpos by (auto simp: rand_ok_def)
  have "src (n div Second) + 1 \<le> n div Second" using v by simp
  then have "(src (n div Second) + 1) * Second \<le> (n div Second) * Second"
    by (simp add: Second_def)
  also have "\<dots> \<le> n" by (simp add: Second_def)
  finally have lt: "src (n div Second) * Second < n" by (simp add: Second_def algebra_simps)
  have ge: "0 \<le> src (n div Second) * Second" using v by (simp add: Second_def)
  have w: "wrap64 (src (n div Second) * Second) = src (n div Second) * Second"
    using ge lt assms(3) by (intro wrap64_id) auto
  show ?thesis using qpos ge lt w by (simp add: randSecondDuration_def Int63n_def q)
qed

text \<open>
  Claim C1, as amended. For a random source that keeps the contract of \<^verbatim>\<open>Int63n\<close>, a wait
  algorithm with \<open>0 \<le> base \<le> cap\<close>, and a previous sleep \<open>\<ge> 0\<close> whose triple does not
  overflow and for which \<open>t = 3 * sleep - base\<close> is zero or at least one second in absolute
  value (every whole number of seconds is such a sleep), \<^verbatim>\<open>decorr\<close> returns a duration in
  \<open>[0, cap]\<close>.
\<close>

theorem decorr_in_range:
  assumes src: "rand_ok src"
    and w: "0 \<le> base w" "base w < 2 ^ 63" "base w \<le> cap w"
    and sleep: "0 \<le> sleep" "3 * sleep < 2 ^ 63"
    and t: "3 * sleep = base w \<or> Second \<le> \<bar>3 * sleep - base w\<bar>"
  shows "\<exists>d. decorr w src attempt sleep = Inr d \<and> 0 \<le> d \<and> d \<le> cap w"
proof -
  let ?t = "3 * sleep - base w"
  have w3: "wrap64 (3 * sleep) = 3 * sleep" using sleep by (intro wrap64_id) auto
  have wt: "wrap64 ?t = ?t" using sleep w by (intro wrap64_id) auto
  consider (pos) "0 < ?t" | (neg) "?t < 0" | (zero) "?t = 0" by linarith
  then show ?thesis
  proof cases
    case pos
    then have "Second \<le> ?t" using t by auto
    moreover have "?t < 2 ^ 63" using sleep w by auto
    ultimately obtain d where d: "randSecondDuration src ?t = Inr d" "0 \<le> d" "d < ?t"
      using randSecondDuration_ok [OF src] by blast
    have "wrap64 (d + base w) = d + base w" using d w sleep by (intro wrap64_id) auto
    then show ?thesis using pos d w by (simp add: decorr_def Let_def w3 wt durationMin_def)
  next
    case neg
    then have "Second \<le> - ?t" using t by auto
    moreover have "- ?t < 2 ^ 63" using sleep w by auto
    moreover have wn: "wrap64 (- ?t) = - ?t" using sleep w by (intro wrap64_id) auto
    ultimately obtain d where d: "randSecondDuration src (- ?t) = Inr d" "0 \<le> d" "d < - ?t"
      using randSecondDuration_ok [OF src] by blast
    have "wrap64 (d + 3 * sleep) = d + 3 * sleep" using d w sleep by (intro wrap64_id) auto
    then show ?thesis using neg d w sleep wn
      by (simp add: decorr_def Let_def w3 wt durationMin_def)
  next
    case zero
    have "wrap64 (wrap64 (3 * sleep) - base w) = wrap64 0" using zero by (simp only: w3)
    then have "wrap64 (wrap64 (3 * sleep) - base w) = 0" by (simp add: wrap64_def)
    then show ?thesis using w unfolding decorr_def Let_def by simp
  qed
qed

theorem decorr_in_range_witness:
  "rand_ok (fixed_source 7) \<and> (\<exists>d. decorr defaultWaitAlgo (fixed_source 7) 2 (3 * Second) = Inr d \<and> 0 \<le> d \<and> d \<le> cap defaultWaitAlgo)"
  using decorr_in_range [of "fixed_source 7" defaultWaitAlgo "3 * Second" 2]
  by (simp add: rand_ok_fixed_source defaultWaitAlgo_def Second_def)

text \<open>
  Counterexample to claim C1 as stated: with the previous sleep 1.7 s, \<open>t\<close> is 0.1 s, the
  argument of \<^verbatim>\<open>Int63n\<close> is \<open>0\<close> and \<^verbatim>\<open>decorr\<close> panics instead of returning.
\<close>

theorem decorr_fractional_sleep_panics:
  "decorr defaultWaitAlgo (fixed_source 0) 0 1700000000 = Inl Int63nInvalidArgument"
  by (simp add: decorr_def defaultWaitAlgo_def Second_def wrap64_def randSecondDuration_def
      Int63n_def quot_def)

text \<open>
  Claim C6, as amended. With the previous sleep \<open>0\<close> and a base of at least one second,
  \<^verbatim>\<open>decorr\<close> takes the branch \<open>t < 0\<close> and returns \<open>min cap (r * Second)\<close> for the number
  \<open>r\<close> drawn from \<open>[0, base / Second)\<close>: a duration in \<open>[0, base)\<close>, never \<open>base\<close>.
\<close>

theorem decorr_zero_sleep:
  assumes src: "rand_ok src" and w: "Second \<le> base w" "base w < 2 ^ 63" "0 \<le> cap w"
  shows "\<exists>d. decorr w src attempt 0 = Inr d
           \<and> d = min (cap w) (src (base w div Second) * Second) \<and> 0 \<le> d \<and> d < base w"
proof -
  have b0: "0 < base w" using w(1) by (simp add: Second_def)
  have wt: "wrap64 (- base w) = - base w" using w b0 by (intro wrap64_id) auto
  have wb: "wrap64 (base w) = base w" using w b0 by (intro wrap64_id) auto
  obtain d where d: "randSecondDuration src (base w) = Inr d" "0 \<le> d" "d < base w"
     "d = src (base w div Second) * Second"
    using randSecondDuration_ok [OF src w(1) w(2)] by blast
  have "wrap64 d = d" using d w by (intro wrap64_id) auto
  then show ?thesis using d w b0
    by (simp add: decorr_def Let_def wrap64_id wt wb durationMin_def min_def)
qed

theorem decorr_zero_sleep_witness:
  "rand_ok (fixed_source 3) \<and> decorr defaultWaitAlgo (fixed_source 3) 0 0 = Inr (3 * Second)"
  using decorr_zero_sleep [of "fixed_source 3" defaultWaitAlgo 0]
  by (simp add: rand_ok_fixed_source defaultWaitAlgo_def Second_def fixed_source_def)

text \<open>
  Counterexample to claim C6 as stated: in the default configuration, a draw of \<open>0\<close> makes
  \<^verbatim>\<open>decorr(0, 0)\<close> return \<open>0\<close>, not the base of five seconds.
\<close>

theorem decorr_zero_sleep_not_base:
  "decorr defaultWaitAlgo (fixed_source 0) 0 0 \<noteq> Inr (base defaultWaitAlgo)"
  by (simp add: decorr_def defaultWaitAlgo_def Second_def wrap64_def randSecondDuration_def
      Int63n_def quot_def fixed_source_def durationMin_def)


section \<open>Properties of the classifier\<close>

text \<open>
  Claim C5. A \<^verbatim>\<open>*url.Error\<close> around the driver's error with the number
  \<^verbatim>\<open>ErrOCSPStatusRevoked\<close> is classified as stop, and the error returned is the wrapper
  itself. A \<^verbatim>\<open>*url.Error\<close> around an error of no special type (connection refused, reset,
  DNS failure) is classified as continue, whatever its text, unless the platform is darwin
  and the text has the form of an expired-certificate message, which no connection error has.
\<close>

theorem classifier_revoked_and_plain:
  assumes "\<not> (GOOS pc = ''darwin'' \<and> HasPrefix msg ''x509:'' \<and> HasSuffix msg ''certificate is expired'')"
  shows "isRetryableError pc (URLError op u (Some (SnowflakeError (ErrOCSPStatusRevoked pc) text)))
           = Inr (True, URLError op u (Some (SnowflakeError (ErrOCSPStatusRevoked pc) text)))
       \<and> isRetryableError pc (URLError op u (Some (OtherCause msg)))
           = Inr (False, URLError op u (Some (OtherCause msg)))"
  using assms by auto

theorem classifier_revoked_and_plain_witness:
  "isRetryableError (example_consts\<lparr>GOOS := ''darwin''\<rparr>)
       (URLError ''Post'' ''u'' (Some (SnowflakeError 254001 ''certificate revoked'')))
     = Inr (True, URLError ''Post'' ''u'' (Some (SnowflakeError 254001 ''certificate revoked'')))
   \<and> isRetryableError (example_consts\<lparr>GOOS := ''darwin''\<rparr>) connection_refused
     = Inr (False, connection_refused)"
  using classifier_revoked_and_plain [of "example_consts\<lparr>GOOS := ''darwin''\<rparr>"
      "''dial tcp 10.0.0.1:443: connect: connection refused''" "''Post''" "''u''" "''certificate revoked''"]
   classifier_revoked_and_plain [of "example_consts\<lparr>GOOS := ''darwin''\<rparr>"
      "''dial tcp 10.0.0.1:443: connect: connection refused''" "''Post''" "''https://host/session/heartbeat''" "''certificate revoked''"]
  by (simp add: example_consts_def connection_refused_def HasPrefix_def)

section \<open>Properties of the heartbeat\<close>

text \<open>
  Claim C8. When the keep-alive response is "session expired" and the renewal succeeds,
  \<^verbatim>\<open>heartbeatMain\<close> returns no error; when it is any other application-level error with a
  numeric code, \<^verbatim>\<open>heartbeatMain\<close> returns the driver error whose number is
  \<^verbatim>\<open>ErrFailedToHeartbeat\<close> and which carries that code.
\<close>

theorem heartbeat_recovers_or_fails:
  "heartbeatMain ErrFailedToHeartbeat SessionExpired None = None
   \<and> heartbeatMain ErrFailedToHeartbeat (ApplicationError code) renew
       = Some (DriverError ErrFailedToHeartbeat code)"
  by simp

section \<open>Properties of the URL mutators\<close>

text \<open>
  Claim C7. A URL whose parsed query has the parameter \<^verbatim>\<open>clientStartTime\<close> is returned
  unchanged by \<^verbatim>\<open>ensureClientStartTimeIsSet\<close>, for every timestamp and through any number
  of applications.
\<close>

theorem clientStartTime_kept:
  assumes "values_Has (Query u) clientStartTimeKey"
  shows "foldl (ensureClientStartTimeIsSet pc) u stamps = u"
  using assms by (induction stamps) (simp_all add: ensureClientStartTimeIsSet_def)

lemma query_url_has_start: "values_Has (Query (query_url\<lparr>RawQuery := ''clientStartTime=100&request_guid=g0''\<rparr>)) clientStartTimeKey"
  by code_simp

theorem clientStartTime_kept_witness:
  "values_Has (Query (query_url\<lparr>RawQuery := ''clientStartTime=100&request_guid=g0''\<rparr>)) clientStartTimeKey
   \<and> foldl (ensureClientStartTimeIsSet example_consts)
        (query_url\<lparr>RawQuery := ''clientStartTime=100&request_guid=g0''\<rparr>) [''200'', ''300'']
      = query_url\<lparr>RawQuery := ''clientStartTime=100&request_guid=g0''\<rparr>"
  using clientStartTime_kept [OF query_url_has_start, of example_consts "[''200'', ''300'']"] query_url_has_start
  by simp

text \<open>
  Claim C10. On a URL whose path does not start with the query-request prefix, every
  sequence of applications of the retry-count updater, the retry-reason updater and the
  client-start-time setter returns the URL unchanged, so none of the three parameters is
  ever added.
\<close>

theorem mutators_identity_off_query_path:
  assumes "\<not> isQueryRequest pc u"
  shows "foldl (apply_mutation pc) u ms = u"
proof (induction ms)
  case Nil
  show ?case by simp
next
  case (Cons m ms)
  have "apply_mutation pc u m = u"
    using assms
    by (cases m) (simp_all add: newRetryCountUpdater_def newRetryReasonUpdater_def ensureClientStartTimeIsSet_def)
  then show ?case using Cons by simp
qed

lemma heartbeat_not_query: "\<not> isQueryRequest example_consts heartbeat_url"
  by (simp add: isQueryRequest_def example_consts_def heartbeat_url_def HasPrefix_def)

theorem mutators_identity_off_query_path_witness:
  "\<not> isQueryRequest example_consts heartbeat_url
   \<and> foldl (apply_mutation example_consts) heartbeat_url
       [UpdateRetryCount 1, UpdateRetryReason None 503, SetClientStartTime ''1700'', UpdateRetryCount 2]
     = heartbeat_url"
  by (rule conjI [OF heartbeat_not_query mutators_identity_off_query_path [OF heartbeat_not_query]])


section \<open>Steps of the loop\<close>

text \<open>
  What one pass of the URL mutation leaves alone, and the three ways in which the retry
  handling of an iteration ends: the budget is used up, the context is done during the
  wait, or the loop goes round again.
\<close>

lemma mutateURL_logs:
  "sent (mutateURL pc r a cst st) = sent st" "slept (mutateURL pc r a cst st) = slept st"
  by (simp_all add: mutateURL_def Let_def split: prod.splits)

lemma mutateURL_sleepTime: "sleepTime (mutateURL pc r a cst st) = sleepTime st"
  by (simp add: mutateURL_def Let_def split: prod.splits)

lemma mutateURL_fields:
  "retryCounter (mutateURL pc r a cst st) = retryCounter st + 1"
  "res (mutateURL pc r a cst st) = res st"
  "totalTimeout (mutateURL pc r a cst st) = totalTimeout st"
  by (simp_all add: mutateURL_def Let_def split: prod.splits)

lemma retry_handling_continues:
  assumes "decorr defaultWaitAlgo (rand a) (retryCounter st) (sleepTime st) = Inr d"
    and "\<not> (0 < totalTimeout st \<and> wrap64 (totalTimeout st - d) \<le> 0)"
    and "ctx_done a = None"
  shows "\<exists>st2. retry_handling pc r a cst st err = Inr st2
           \<and> retryCounter st2 = retryCounter st + 1 \<and> sleepTime st2 = d \<and> res st2 = res st
           \<and> sent st2 = sent st \<and> slept st2 = slept st @ [d]"
  using assms
  by (auto simp: retry_handling_def Let_def mutateURL_fields mutateURL_logs mutateURL_sleepTime)

lemma retry_handling_cancelled:
  assumes "decorr defaultWaitAlgo (rand a) (retryCounter st) (sleepTime st) = Inr d"
    and "\<not> (0 < totalTimeout st \<and> wrap64 (totalTimeout st - d) \<le> 0)"
    and "ctx_done a = Some ce"
  shows "\<exists>fin. retry_handling pc r a cst st err = Inl (Returned (res st) (Some ce), fin)
           \<and> sent fin = sent st \<and> slept fin = slept st @ [d]"
  using assms
  by (auto simp: retry_handling_def Let_def mutateURL_fields mutateURL_logs mutateURL_sleepTime)

lemma retry_handling_exhausted:
  assumes "decorr defaultWaitAlgo (rand a) (retryCounter st) (sleepTime st) = Inr d"
    and "0 < totalTimeout st \<and> wrap64 (totalTimeout st - d) \<le> 0"
  shows "\<exists>fin. retry_handling pc r a cst st err = Inl (timeoutResult r (res st) err, fin)
           \<and> sent fin = sent st \<and> slept fin = slept st"
  using assms
  by (auto simp: retry_handling_def Let_def)

lemma three_second_draw: "decorr defaultWaitAlgo (fixed_source 3) 0 0 = Inr (3 * Second)"
  by (simp add: decorr_def defaultWaitAlgo_def Second_def wrap64_def randSecondDuration_def
      Int63n_def quot_def fixed_source_def durationMin_def)

lemma four_second_draw:
  "decorr defaultWaitAlgo (fixed_source 4) 0 0 = Inr (4 * Second)"
  by (simp add: decorr_def defaultWaitAlgo_def Second_def wrap64_def randSecondDuration_def
      Int63n_def quot_def fixed_source_def durationMin_def)

section \<open>Properties of the retry loop\<close>

text \<open>
  Claim C4. With \<^verbatim>\<open>raise4XX\<close> set, an iteration in which \<^verbatim>\<open>client.Do\<close> answers with a
  response of status in \<open>[400, 500)\<close> other than 429 and no error ends \<^verbatim>\<open>execute\<close> there:
  it returns that response and a nil error, whatever the collaborators would answer later,
  and neither the retry counter nor the log of sleeps changes. A response of status 429 is
  retried: unless the budget is used up by the sleep or the context is done during it, the
  loop counts one more retry, sleeps the duration computed by the backoff and runs on with
  the answers of the next iteration.
\<close>

theorem raise4XX_returns_at_once:
  assumes "raise4XX r"
    and "body_result a = None" "req_result a = Inr nonnil" "nonnil \<or> headers r = []"
    and "do_result a = (Some x, None)"
    and "400 \<le> StatusCode x" "StatusCode x < 500"
  shows "(StatusCode x \<noteq> 429 \<longrightarrow>
            execute_loop pc r clientStartTime (a # script) st
              = Some (Returned (Some x) None, st\<lparr>res := Some x, sent := sent st @ [r_fullURL st]\<rparr>))
       \<and> (StatusCode x = 429 \<longrightarrow>
            try_once pc r a st = Inr (st\<lparr>res := Some x, sent := sent st @ [r_fullURL st]\<rparr>, None))
       \<and> (StatusCode x = 429 \<longrightarrow>
            decorr defaultWaitAlgo (rand a) (retryCounter st) (sleepTime st) = Inr d \<longrightarrow>
            \<not> (0 < totalTimeout st \<and> wrap64 (totalTimeout st - d) \<le> 0) \<longrightarrow>
            ctx_done a = None \<longrightarrow>
            (\<exists>st2. execute_loop pc r clientStartTime (a # script) st
                     = execute_loop pc r clientStartTime script st2
                 \<and> retryCounter st2 = retryCounter st + 1 \<and> sleepTime st2 = d
                 \<and> res st2 = Some x \<and> sent st2 = sent st @ [r_fullURL st]
                 \<and> slept st2 = slept st @ [d]))"
proof (intro conjI impI)
  assume "StatusCode x \<noteq> 429"
  then show "execute_loop pc r clientStartTime (a # script) st
      = Some (Returned (Some x) None, st\<lparr>res := Some x, sent := sent st @ [r_fullURL st]\<rparr>)"
    using assms by (auto simp: try_once_def Let_def)
next
  assume "StatusCode x = 429"
  then show "try_once pc r a st = Inr (st\<lparr>res := Some x, sent := sent st @ [r_fullURL st]\<rparr>, None)"
    using assms by (auto simp: try_once_def Let_def)
next
  let ?st1 = "st\<lparr>res := Some x, sent := sent st @ [r_fullURL st]\<rparr>"
  assume s: "StatusCode x = 429"
    and d: "decorr defaultWaitAlgo (rand a) (retryCounter st) (sleepTime st) = Inr d"
    and b: "\<not> (0 < totalTimeout st \<and> wrap64 (totalTimeout st - d) \<le> 0)"
    and c: "ctx_done a = None"
  have t: "try_once pc r a st = Inr (?st1, None)"
    using s assms by (auto simp: try_once_def Let_def)
  have "\<exists>st2. retry_handling pc r a clientStartTime ?st1 None = Inr st2
           \<and> retryCounter st2 = retryCounter ?st1 + 1 \<and> sleepTime st2 = d \<and> res st2 = res ?st1
           \<and> sent st2 = sent ?st1 \<and> slept st2 = slept ?st1 @ [d]"
    using d b c by (intro retry_handling_continues) simp_all
  then obtain st2 where "retry_handling pc r a clientStartTime ?st1 None = Inr st2"
    "retryCounter st2 = retryCounter st + 1" "sleepTime st2 = d" "res st2 = Some x"
    "sent st2 = sent st @ [r_fullURL st]" "slept st2 = slept st @ [d]" by auto
  then show "\<exists>st2. execute_loop pc r clientStartTime (a # script) st
                     = execute_loop pc r clientStartTime script st2
                 \<and> retryCounter st2 = retryCounter st + 1 \<and> sleepTime st2 = d
                 \<and> res st2 = Some x \<and> sent st2 = sent st @ [r_fullURL st]
                 \<and> slept st2 = slept st @ [d]"
    using t by auto
qed


theorem raise4XX_returns_at_once_witness:
  "execute example_consts (example_request heartbeat_url 0 True)
      [example_attempt (status 403) None 0 ''g1'', example_attempt (status 200) None 0 ''g2'']
     = Some (Returned (status 403) None,
             (initial_state (example_request heartbeat_url 0 True))\<lparr>res := status 403, sent := [heartbeat_url]\<rparr>)
   \<and> (\<exists>st2. execute example_consts (example_request heartbeat_url 0 True)
               [example_attempt (status 429) None 3 ''g1'', example_attempt (status 200) None 0 ''g2'']
             = execute_loop example_consts (example_request heartbeat_url 0 True) (Itoa 1700)
                 [example_attempt (status 200) None 0 ''g2''] st2
           \<and> retryCounter st2 = 1 \<and> sleepTime st2 = 3 * Second \<and> res st2 = status 429
           \<and> sent st2 = [heartbeat_url] \<and> slept st2 = [3 * Second])"
  using raise4XX_returns_at_once [of "example_request heartbeat_url 0 True"
      "example_attempt (status 403) None 0 ''g1''" True "\<lparr>StatusCode = 403\<rparr>" example_consts
      "Itoa 1700" "[example_attempt (status 200) None 0 ''g2'']" "initial_state (example_request heartbeat_url 0 True)" 0]
    raise4XX_returns_at_once [of "example_request heartbeat_url 0 True"
      "example_attempt (status 429) None 3 ''g1''" True "\<lparr>StatusCode = 429\<rparr>" example_consts
      "Itoa 1700" "[example_attempt (status 200) None 0 ''g2'']" "initial_state (example_request heartbeat_url 0 True)"
      "3 * Second"]
    three_second_draw
  by (simp add: execute_def example_request_def example_attempt_def status_def initial_state_def
      del: execute_loop.simps)

lemma too_many_requests_then_ok:
  "map_option (\<lambda>p. (fst p, map RawQuery (sent (snd p)), slept (snd p)))
     (execute example_consts (example_request heartbeat_url 0 True)
        [example_attempt (status 429) None 3 ''g1'', example_attempt (status 200) None 0 ''g2''])
   = Some (Returned (status 200) None,
           [''request_guid=abc&bad=%zz'', ''request_guid=abc&bad=%zz''], [3 * Second])"
  by code_simp

text \<open>
  Claim C3, as amended. When an iteration reaches the retry handling with a positive budget
  and the budget less the computed sleep is zero or below, \<^verbatim>\<open>execute\<close> returns a nil
  response and an error without sleeping: the transport error of that iteration when there
  is one, and otherwise the timeout error that carries the configured timeout and the status
  of the response of that iteration.
\<close>

theorem budget_exhausted:
  assumes "try_once pc r a st = Inr (st1, err)"
    and "0 < totalTimeout st1"
    and "decorr defaultWaitAlgo (rand a) (retryCounter st1) (sleepTime st1) = Inr d"
    and "wrap64 (totalTimeout st1 - d) \<le> 0"
  shows "\<exists>e fin. execute_loop pc r clientStartTime (a # script) st = Some (Returned None (Some e), fin)
           \<and> slept fin = slept st
           \<and> (case err of
                Some e' \<Rightarrow> e = e'
              | None \<Rightarrow> \<exists>x. do_result a = (Some x, None) \<and> e = TimeoutStatus (timeout r) (StatusCode x))"
proof -
  have sl: "slept st1 = slept st"
    using assms(1)
    by (auto simp: try_once_def Let_def split: option.splits sum.splits if_splits prod.splits)
  have rs: "err = None \<Longrightarrow> \<exists>x. do_result a = (Some x, None) \<and> res st1 = Some x"
    using assms(1)
    by (auto simp: try_once_def Let_def split: option.splits sum.splits if_splits prod.splits)
  show ?thesis
  proof (cases err)
    case None
    then obtain x where "do_result a = (Some x, None)" "res st1 = Some x" using rs by blast
    then show ?thesis using assms None sl
      by (simp add: retry_handling_def Let_def timeoutResult_def)
  next
    case (Some e')
    then show ?thesis using assms sl
      by (simp add: retry_handling_def Let_def timeoutResult_def)
  qed
qed

lemma one_second_budget_try:
  "try_once example_consts (example_request heartbeat_url Second False)
      (example_attempt (status 500) None 4 ''g1'') (initial_state (example_request heartbeat_url Second False))
   = Inr ((initial_state (example_request heartbeat_url Second False))\<lparr>res := status 500, sent := [heartbeat_url]\<rparr>, None)"
  by (simp add: try_once_def example_request_def example_attempt_def status_def initial_state_def)

theorem budget_exhausted_witness:
  "\<exists>fin. execute example_consts (example_request heartbeat_url Second False)
      [example_attempt (status 500) None 4 ''g1'']
     = Some (Returned None (Some (TimeoutStatus Second 500)), fin) \<and> slept fin = []"
  using budget_exhausted [OF one_second_budget_try, of "4 * Second" "Itoa 1700" "[]"]
    four_second_draw
  by (simp add: execute_def example_request_def example_attempt_def status_def initial_state_def
      Second_def wrap64_def)

text \<open>
  Counterexample to claim C3 as stated: the budget is one second, the only attempt ends in
  "connection refused" with no response, the sleep drawn is four seconds. What
  \<^verbatim>\<open>execute\<close> returns is the transport error itself, not a timeout error with the generic
  "hanging" text.
\<close>

theorem transport_error_at_budget_end:
  "map_option fst (execute example_consts (example_request heartbeat_url Second False)
      [example_attempt None (Some connection_refused) 4 ''g1''])
   = Some (Returned None (Some connection_refused))"
  by (simp add: execute_def try_once_def retry_handling_def timeoutResult_def example_request_def
      example_attempt_def initial_state_def connection_refused_def example_consts_def
      HasPrefix_def HasSuffix_def four_second_draw Second_def wrap64_def)


text \<open>
  Claim C9, as amended. For an error that is not a \<^verbatim>\<open>*url.Error\<close> (a bare context error
  included) the classifier answers \<open>(false, the same error)\<close>, and an iteration in which
  \<^verbatim>\<open>client.Do\<close> returns such an error never ends \<^verbatim>\<open>execute\<close> at the classifier. What
  follows is decided by the retry handling: when the budget is used up by the computed
  sleep, \<^verbatim>\<open>execute\<close> returns nil and that same error without sleeping; when the context is
  done during the sleep, it returns the response of the iteration and the error of the
  context; in every other case the loop counts one more retry, sleeps and runs on with the
  answers of the next iteration.
\<close>

theorem unwrapped_error_is_retried:
  assumes "\<not> isURLError e"
    and "body_result a = None" "req_result a = Inr nonnil" "nonnil \<or> headers r = []"
    and "do_result a = (resp, Some e)"
    and "decorr defaultWaitAlgo (rand a) (retryCounter st) (sleepTime st) = Inr d"
  shows "isRetryableError pc e = Inr (False, e)
       \<and> (if 0 < totalTimeout st \<and> wrap64 (totalTimeout st - d) \<le> 0
          then \<exists>fin. execute_loop pc r clientStartTime (a # script) st
                       = Some (Returned None (Some e), fin)
                   \<and> sent fin = sent st @ [r_fullURL st] \<and> slept fin = slept st
          else case ctx_done a of
                 Some ce \<Rightarrow>
                   \<exists>fin. execute_loop pc r clientStartTime (a # script) st
                           = Some (Returned resp (Some ce), fin)
                       \<and> sent fin = sent st @ [r_fullURL st] \<and> slept fin = slept st @ [d]
               | None \<Rightarrow>
                   \<exists>st2. execute_loop pc r clientStartTime (a # script) st
                           = execute_loop pc r clientStartTime script st2
                       \<and> retryCounter st2 = retryCounter st + 1 \<and> sleepTime st2 = d
                       \<and> res st2 = resp \<and> sent st2 = sent st @ [r_fullURL st]
                       \<and> slept st2 = slept st @ [d])"
proof -
  let ?st1 = "st\<lparr>res := resp, sent := sent st @ [r_fullURL st]\<rparr>"
  have c: "isRetryableError pc e = Inr (False, e)" using assms(1) by (cases e) auto
  have t: "try_once pc r a st = Inr (?st1, Some e)"
    using assms(2-5) c by (auto simp: try_once_def Let_def)
  have d1: "decorr defaultWaitAlgo (rand a) (retryCounter ?st1) (sleepTime ?st1) = Inr d"
    using assms(6) by simp
  show ?thesis
  proof (cases "0 < totalTimeout st \<and> wrap64 (totalTimeout st - d) \<le> 0")
    case True
    then have "0 < totalTimeout ?st1 \<and> wrap64 (totalTimeout ?st1 - d) \<le> 0" by simp
    from retry_handling_exhausted [OF d1 this, of pc r clientStartTime "Some e"]
    show ?thesis using True t c by (auto simp: timeoutResult_def)
  next
    case False
    then have b: "\<not> (0 < totalTimeout ?st1 \<and> wrap64 (totalTimeout ?st1 - d) \<le> 0)" by simp
    show ?thesis
    proof (cases "ctx_done a")
      case None
      from retry_handling_continues [OF d1 b None, of pc r clientStartTime "Some e"]
      show ?thesis using False None t c by auto
    next
      case (Some ce)
      from retry_handling_cancelled [OF d1 b Some, of pc r clientStartTime "Some e"]
      show ?thesis using False Some t c by auto
    qed
  qed
qed

theorem unwrapped_error_is_retried_witness:
  "isRetryableError example_consts (Plain Canceled) = Inr (False, Plain Canceled)
   \<and> (\<exists>st2. execute example_consts (example_request heartbeat_url 0 False)
               [example_attempt None (Some (Plain Canceled)) 3 ''g1'', example_attempt (status 200) None 0 ''g2'']
             = execute_loop example_consts (example_request heartbeat_url 0 False) (Itoa 1700)
                 [example_attempt (status 200) None 0 ''g2''] st2
           \<and> retryCounter st2 = 1 \<and> sleepTime st2 = 3 * Second \<and> res st2 = None
           \<and> sent st2 = [heartbeat_url] \<and> slept st2 = [3 * Second])"
  using unwrapped_error_is_retried [of "Plain Canceled" "example_attempt None (Some (Plain Canceled)) 3 ''g1''"
      True "example_request heartbeat_url 0 False" None "initial_state (example_request heartbeat_url 0 False)"
      "3 * Second" example_consts "Itoa 1700" "[example_attempt (status 200) None 0 ''g2'']"]
    three_second_draw
  by (simp add: execute_def example_request_def example_attempt_def initial_state_def
      del: execute_loop.simps)

text \<open>
  Counterexample to claim C9 as stated: the budget is one second, the first attempt ends
  in a bare \<^verbatim>\<open>context.Canceled\<close>, the sleep drawn is four seconds. \<^verbatim>\<open>execute\<close> returns
  that error to its caller after this one attempt, without a sleep and without a retry,
  although a second attempt would have succeeded.
\<close>

theorem bare_cancel_returned_at_budget_end:
  "map_option (\<lambda>p. (fst p, length (sent (snd p)), slept (snd p)))
     (execute example_consts (example_request heartbeat_url Second False)
        [example_attempt None (Some (Plain Canceled)) 4 ''g1'', example_attempt (status 200) None 0 ''g2''])
   = Some (Returned None (Some (Plain Canceled)), 1, [])"
  by (simp add: execute_def try_once_def retry_handling_def timeoutResult_def example_request_def
      example_attempt_def initial_state_def four_second_draw Second_def wrap64_def)


section \<open>The tracking identifier across retries\<close>

lemma values_Del_absent: "map_of (values_Del v k) k = None"
  by (induction v) (auto simp: values_Del_def)

lemma values_Del_idem: "values_Del (values_Del v k) k = values_Del v k"
  by (simp add: values_Del_def)

lemma values_Del_Add_Del: "values_Del (values_Add (values_Del v k) k x) k = values_Del v k"
  by (simp add: values_Add_def values_Del_absent) (simp add: values_Del_def)

lemma try_once_cases:
  "(\<exists>out. try_once pc r a st = Inl (out, st))
   \<or> (\<exists>out. try_once pc r a st = Inl (out, st\<lparr>res := fst (do_result a), sent := sent st @ [r_fullURL st]\<rparr>))
   \<or> (\<exists>err. try_once pc r a st = Inr (st\<lparr>res := fst (do_result a), sent := sent st @ [r_fullURL st]\<rparr>, err))"
  by (auto simp: try_once_def Let_def split: option.splits sum.splits prod.splits)


lemma upperhex_digits:
  "\<forall>n \<in> set [0..<16]. ishex (upperhex ! n) \<and> unhex (upperhex ! n) = n
      \<and> upperhex ! n \<noteq> CHR ''&'' \<and> upperhex ! n \<noteq> CHR ''='' \<and> upperhex ! n \<noteq> CHR '';''"
  by code_simp

lemma upperhex_digit:
  assumes "n < 16"
  shows "ishex (upperhex ! n)" "unhex (upperhex ! n) = n"
    "upperhex ! n \<noteq> CHR ''&''" "upperhex ! n \<noteq> CHR ''=''" "upperhex ! n \<noteq> CHR '';''"
  using upperhex_digits assms by auto

lemma of_char_nibbles: "of_char c div 16 < (16::nat)" "of_char c mod 16 < (16::nat)"
proof -
  have "of_char c < (256::nat)" by simp
  then show "of_char c div 16 < (16::nat)" by (simp add: div_less_iff_less_mult)
  show "of_char c mod 16 < (16::nat)" by simp
qed

lemma char_of_nibbles: "char_of (of_char c div 16 * 16 + of_char c mod 16 :: nat) = c"
  by simp

lemma unescaped_char:
  "\<not> shouldEscape c \<Longrightarrow> c \<noteq> CHR ''%'' \<and> c \<noteq> CHR ''+'' \<and> c \<noteq> CHR ''&'' \<and> c \<noteq> CHR ''='' \<and> c \<noteq> CHR '';''"
  by (auto simp: shouldEscape_def)

lemma QueryUnescape_QueryEscape: "QueryUnescape (QueryEscape s) = Inr s"
proof (induction s)
  case Nil
  show ?case by simp
next
  case (Cons c s)
  show ?case
  proof (cases "shouldEscape c")
    case True
    then show ?thesis
      using Cons upperhex_digit [OF of_char_nibbles(1), of c] upperhex_digit [OF of_char_nibbles(2), of c]
      by (simp add: char_of_nibbles)
  next
    case False
    then show ?thesis using Cons unescaped_char [OF False] by simp
  qed
qed

lemma QueryEscape_separators:
  "CHR ''&'' \<notin> set (QueryEscape s)" "CHR ''='' \<notin> set (QueryEscape s)" "CHR '';'' \<notin> set (QueryEscape s)"
proof (induction s)
  case Nil
  { case 1 show ?case by simp }
  { case 2 show ?case by simp }
  { case 3 show ?case by simp }
next
  case (Cons c s)
  { case 1 show ?case
      using Cons(1) upperhex_digit [OF of_char_nibbles(1), of c] upperhex_digit [OF of_char_nibbles(2), of c]
        unescaped_char [of c] by auto }
  { case 2 show ?case
      using Cons(2) upperhex_digit [OF of_char_nibbles(1), of c] upperhex_digit [OF of_char_nibbles(2), of c]
        unescaped_char [of c] by auto }
  { case 3 show ?case
      using Cons(3) upperhex_digit [OF of_char_nibbles(1), of c] upperhex_digit [OF of_char_nibbles(2), of c]
        unescaped_char [of c] by auto }
qed

lemma Cut_found: "sep \<notin> set a \<Longrightarrow> Cut sep (a @ sep # b) = (a, b)"
  by (induction a) auto

lemma Cut_missing: "sep \<notin> set a \<Longrightarrow> Cut sep a = (a, [])"
  by (induction a) auto


lemma enc_pair_shape:
  "enc_pair p \<noteq> []" "CHR ''&'' \<notin> set (enc_pair p)" "CHR '';'' \<notin> set (enc_pair p)"
  "Cut CHR ''='' (enc_pair p) = (QueryEscape (fst p), QueryEscape (snd p))"
  by (simp_all add: enc_pair_def QueryEscape_separators Cut_found)

lemma parseQuery_piece:
  assumes "Cut CHR ''&'' query = (enc_pair p, rest)" "query \<noteq> []"
  shows "parseQuery m err query = parseQuery (values_Add m (fst p) (snd p)) err rest"
  using assms
  by (subst parseQuery.simps) (simp add: enc_pair_shape QueryUnescape_QueryEscape)

lemma parseQuery_join:
  "parseQuery m err (join_amp (map enc_pair ps))
     = (foldl (\<lambda>m p. values_Add m (fst p) (snd p)) m ps, err)"
proof (induction ps arbitrary: m rule: induct_list012)
  case 1
  show ?case by (simp add: parseQuery.simps)
next
  case (2 p)
  have "parseQuery m err (enc_pair p) = parseQuery (values_Add m (fst p) (snd p)) err []"
    by (rule parseQuery_piece) (simp_all add: Cut_missing enc_pair_shape)
  then show ?case by (simp add: parseQuery.simps)
next
  case (3 p q qs)
  have "parseQuery m err (enc_pair p @ CHR ''&'' # join_amp (map enc_pair (q # qs)))
      = parseQuery (values_Add m (fst p) (snd p)) err (join_amp (map enc_pair (q # qs)))"
    by (rule parseQuery_piece) (simp_all add: Cut_found enc_pair_shape)
  then show ?case using 3(2) by simp
qed

lemma values_Encode_join:
  "values_Encode v = join_amp (map enc_pair (flat_pairs (sort_key fst v)))"
proof -
  have j: "(case ps of [] \<Rightarrow> [] | p # qs \<Rightarrow> p @ concat (map (\<lambda>q. ''&'' @ q) qs)) = join_amp ps" for ps
    by (induction ps rule: induct_list012) simp_all
  have "concat (map (\<lambda>kv. map (\<lambda>x. QueryEscape (fst kv) @ ''='' @ QueryEscape x) (snd kv)) w)
      = map enc_pair (flat_pairs w)" for w
    by (induction w) (simp_all add: flat_pairs_def enc_pair_def)
  then show ?thesis by (simp add: values_Encode_def Let_def j)
qed

lemma map_of_values_Add:
  "map_of (values_Add m k x) k'
     = (if k' = k then Some ((case map_of m k of None \<Rightarrow> [] | Some ys \<Rightarrow> ys) @ [x]) else map_of m k')"
proof (cases "map_of m k")
  case None
  then show ?thesis by (auto simp: values_Add_def map_add_def split: option.splits)
next
  case (Some ys)
  have "map_of (map (\<lambda>kv. if fst kv = k then (fst kv, snd kv @ [x]) else kv) m) k'
      = (if k' = k then map_option (\<lambda>ys. ys @ [x]) (map_of m k') else map_of m k')"
    by (induction m) auto
  then show ?thesis using Some by (simp add: values_Add_def)
qed

lemma map_of_fold_Add_other:
  "\<forall>p \<in> set ps. fst p \<noteq> k \<Longrightarrow> map_of (foldl (\<lambda>m p. values_Add m (fst p) (snd p)) m ps) k = map_of m k"
  by (induction ps arbitrary: m) (auto simp: map_of_values_Add)

lemma map_of_fold_Add_single:
  assumes "filter (\<lambda>p. fst p = k) ps = [(k, x)]" "map_of m k = None"
  shows "map_of (foldl (\<lambda>m p. values_Add m (fst p) (snd p)) m ps) k = Some [x]"
  using assms
proof (induction ps arbitrary: m)
  case Nil
  then show ?case by simp
next
  case (Cons p ps)
  show ?case
  proof (cases "fst p = k")
    case True
    then have p: "p = (k, x)" and rest: "filter (\<lambda>p. fst p = k) ps = []" using Cons.prems(1) by auto
    have "\<forall>q \<in> set ps. fst q \<noteq> k" using rest by (simp add: filter_empty_conv)
    then show ?thesis using Cons.prems(2) p
      by (simp add: map_of_fold_Add_other map_of_values_Add)
  next
    case False
    then have "filter (\<lambda>p. fst p = k) ps = [(k, x)]" using Cons.prems(1) by simp
    moreover have "map_of (values_Add m (fst p) (snd p)) k = None"
      using False Cons.prems(2) by (simp add: map_of_values_Add)
    ultimately show ?thesis using Cons.IH by simp
  qed
qed

lemma filter_flat_pairs:
  "filter (\<lambda>p. fst p = k) (flat_pairs v) = flat_pairs (filter (\<lambda>kv. fst kv = k) v)"
  by (induction v) (auto simp: flat_pairs_def filter_empty_conv)

lemma fresh_guid_pairs:
  "filter (\<lambda>p. fst p = k) (flat_pairs (sort_key fst (values_Add (values_Del v k) k x))) = [(k, x)]"
proof -
  have "values_Add (values_Del v k) k x = values_Del v k @ [(k, [x])]"
    by (simp add: values_Add_def values_Del_absent)
  moreover have "filter (\<lambda>kv. fst kv = k) (values_Del v k) = []"
    by (simp add: values_Del_def filter_empty_conv)
  ultimately have "filter (\<lambda>kv. fst kv = k) (sort_key fst (values_Add (values_Del v k) k x)) = [(k, [x])]"
    by (simp add: filter_sort)
  then have "filter (\<lambda>p. fst p = k) (flat_pairs (sort_key fst (values_Add (values_Del v k) k x)))
      = flat_pairs [(k, [x])]"
    by (simp only: filter_flat_pairs)
  then show ?thesis by (simp add: flat_pairs_def)
qed

lemma fresh_guid_round_trip:
  "values_Get (Query (u\<lparr>RawQuery := values_Encode (values_Add (values_Del v k) k x)\<rparr>)) k = x"
proof -
  let ?ps = "flat_pairs (sort_key fst (values_Add (values_Del v k) k x))"
  have "map_of (foldl (\<lambda>m p. values_Add m (fst p) (snd p)) [] ?ps) k = Some [x]"
    by (rule map_of_fold_Add_single [OF fresh_guid_pairs]) simp
  then show ?thesis
    by (simp add: Query_def ParseQuery_def values_Encode_join parseQuery_join values_Get_def)
qed

lemma guid_inv_cong:
  "r_fullURL st' = r_fullURL st \<Longrightarrow> guidReplacer st' = guidReplacer st
   \<Longrightarrow> countUpdater st' = countUpdater st \<Longrightarrow> reasonUpdater st' = reasonUpdater st
   \<Longrightarrow> guid_inv u0 vals st' = guid_inv u0 vals st"
  by (simp add: guid_inv_def cong: option.case_cong)

lemma isQueryRequest_RawQuery [simp]: "isQueryRequest pc (u\<lparr>RawQuery := q\<rparr>) = isQueryRequest pc u"
  by (simp add: isQueryRequest_def)

lemma mutateURL_guid_inv:
  assumes parse: "ParseQuery (RawQuery u0) = (vals, None)"
    and guid: "values_Get vals requestGUIDKey \<noteq> []"
    and nq: "\<not> isQueryRequest pc u0"
    and inv: "guid_inv u0 vals st"
  shows "r_fullURL (mutateURL pc r a cst st)
           = u0\<lparr>RawQuery := values_Encode
                 (values_Add (values_Del vals requestGUIDKey) requestGUIDKey (uuid a))\<rparr>"
    and "guid_inv u0 vals (mutateURL pc r a cst st)"
proof -
  let ?v' = "values_Add (values_Del vals requestGUIDKey) requestGUIDKey (uuid a)"
  obtain q where q: "r_fullURL st = u0\<lparr>RawQuery := q\<rparr>" using inv by (auto simp: guid_inv_def)
  obtain v where g: "(case guidReplacer st of None \<Rightarrow> newRequestGUIDReplace (r_fullURL st) | Some x \<Rightarrow> x)
       = requestGUIDReplace v" and v: "values_Del v requestGUIDKey = values_Del vals requestGUIDKey"
  proof (cases "guidReplacer st")
    case None
    then have "r_fullURL st = u0" using inv by (simp add: guid_inv_def)
    then have "newRequestGUIDReplace (r_fullURL st) = requestGUIDReplace vals"
      using parse guid by (simp add: newRequestGUIDReplace_def)
    then show ?thesis using None that by simp
  next
    case (Some x)
    then show ?thesis using inv that by (cases x) (auto simp: guid_inv_def)
  qed
  have c: "(case countUpdater st of None \<Rightarrow> newRetryCountUpdater pc u | Some x \<Rightarrow> x)
      = transientRetryCountUpdater" if "\<not> isQueryRequest pc u" for u
    using inv that by (auto simp: guid_inv_def newRetryCountUpdater_def)
  have s: "(case reasonUpdater st of None \<Rightarrow> newRetryReasonUpdater pc u (cfg r) | Some x \<Rightarrow> x)
      = transientRetryReasonUpdater" if "\<not> isQueryRequest pc u" for u
    using inv that by (auto simp: guid_inv_def newRetryReasonUpdater_def)
  have m: "mutateURL pc r a cst st
      = st\<lparr>r_fullURL := u0\<lparr>RawQuery := values_Encode ?v'\<rparr>, retryCounter := retryCounter st + 1,
            guidReplacer := Some (requestGUIDReplace ?v'),
            countUpdater := Some transientRetryCountUpdater,
            reasonUpdater := Some transientRetryReasonUpdater\<rparr>"
    using nq by (simp add: mutateURL_def Let_def g q v c s ensureClientStartTimeIsSet_def)
  show "r_fullURL (mutateURL pc r a cst st) = u0\<lparr>RawQuery := values_Encode ?v'\<rparr>"
    by (simp add: m)
  show "guid_inv u0 vals (mutateURL pc r a cst st)"
    by (auto simp: m guid_inv_def values_Del_Add_Del)
qed

lemma try_once_Inr:
  assumes "try_once pc r a st = Inr (st1, err)"
  shows "st1 = st\<lparr>res := fst (do_result a), sent := sent st @ [r_fullURL st]\<rparr>"
  using assms try_once_cases [of pc r a st] by auto

lemma try_once_guid_inv:
  assumes "guid_inv u0 vals st" "try_once pc r a st = Inr (st1, err)"
  shows "guid_inv u0 vals st1 \<and> r_fullURL st1 = r_fullURL st \<and> sent st1 = sent st @ [r_fullURL st]"
proof -
  have st1: "st1 = st\<lparr>res := fst (do_result a), sent := sent st @ [r_fullURL st]\<rparr>"
    using assms(2) by (rule try_once_Inr)
  have "guid_inv u0 vals st1 = guid_inv u0 vals st"
    by (rule guid_inv_cong) (simp_all add: st1)
  then show ?thesis using assms(1) by (simp add: st1)
qed

lemma try_once_final_sent:
  assumes "try_once pc r a st = Inl (out, fin)"
  shows "sent fin = sent st \<or> sent fin = sent st @ [r_fullURL st]"
  using assms try_once_cases [of pc r a st] by auto

lemma retry_handling_final_sent:
  assumes "retry_handling pc r a cst st err = Inl (out, fin)"
  shows "sent fin = sent st"
  using assms
  by (auto simp: retry_handling_def Let_def mutateURL_logs split: sum.splits if_splits option.splits)

lemma retry_handling_guid_inv:
  assumes parse: "ParseQuery (RawQuery u0) = (vals, None)"
    and guid: "values_Get vals requestGUIDKey \<noteq> []"
    and nq: "\<not> isQueryRequest pc u0"
    and inv: "guid_inv u0 vals st"
    and step: "retry_handling pc r a cst st err = Inr st2"
  shows "guid_inv u0 vals st2 \<and> sent st2 = sent st
       \<and> r_fullURL st2 = u0\<lparr>RawQuery := values_Encode
                 (values_Add (values_Del vals requestGUIDKey) requestGUIDKey (uuid a))\<rparr>"
proof -
  obtain d where d: "decorr defaultWaitAlgo (rand a) (retryCounter st) (sleepTime st) = Inr d"
    using step by (auto simp: retry_handling_def split: sum.splits)
  define st1 where "st1 = st\<lparr>sleepTime := d,
      totalTimeout := (if totalTimeout st > 0 then wrap64 (totalTimeout st - d) else totalTimeout st)\<rparr>"
  have st2: "st2 = (mutateURL pc r a cst st1)\<lparr>slept := slept (mutateURL pc r a cst st1) @ [d]\<rparr>"
    using step d unfolding retry_handling_def st1_def
    by (simp add: Let_def split: if_splits option.splits)
  have "guid_inv u0 vals st1 = guid_inv u0 vals st"
    by (rule guid_inv_cong) (simp_all add: st1_def)
  then have inv': "guid_inv u0 vals st1" using inv by simp
  show ?thesis
  proof -
    let ?m = "mutateURL pc r a cst st1"
    have "guid_inv u0 vals st2 = guid_inv u0 vals ?m"
      by (rule guid_inv_cong) (simp_all add: st2)
    moreover have "sent st2 = sent st" by (simp add: st2 mutateURL_logs st1_def)
    moreover have "r_fullURL st2 = r_fullURL ?m" by (simp add: st2)
    ultimately show ?thesis
      using mutateURL_guid_inv [OF parse guid nq inv', of r a cst] by simp
  qed
qed


lemma execute_loop_sent:
  assumes parse: "ParseQuery (RawQuery u0) = (vals, None)"
    and guid: "values_Get vals requestGUIDKey \<noteq> []"
    and nq: "\<not> isQueryRequest pc u0"
  shows "guid_inv u0 vals st \<Longrightarrow> execute_loop pc r cst script st = Some (out, fin)
    \<Longrightarrow> \<exists>n. sent fin = sent st @ take n (r_fullURL st #
          map (\<lambda>a. u0\<lparr>RawQuery := values_Encode
                 (values_Add (values_Del vals requestGUIDKey) requestGUIDKey (uuid a))\<rparr>) script)"
proof (induction script arbitrary: st)
  case Nil
  then show ?case by simp
next
  case (Cons a script)
  let ?E = "\<lambda>a. u0\<lparr>RawQuery := values_Encode
                 (values_Add (values_Del vals requestGUIDKey) requestGUIDKey (uuid a))\<rparr>"
  show ?case
  proof (cases "try_once pc r a st")
    case (Inl f)
    then have "try_once pc r a st = Inl (out, fin)" using Cons.prems(2) by simp
    then have "sent fin = sent st \<or> sent fin = sent st @ [r_fullURL st]"
      by (rule try_once_final_sent)
    then show ?thesis
    proof
      assume "sent fin = sent st"
      then have "sent fin = sent st @ take 0 (r_fullURL st # map ?E (a # script))" by simp
      then show ?thesis by blast
    next
      assume "sent fin = sent st @ [r_fullURL st]"
      then have "sent fin = sent st @ take 1 (r_fullURL st # map ?E (a # script))" by simp
      then show ?thesis by blast
    qed
  next
    case (Inr p)
    obtain st1 err where p: "p = (st1, err)" by (cases p)
    have t: "try_once pc r a st = Inr (st1, err)" using Inr p by simp
    have i1: "guid_inv u0 vals st1" "r_fullURL st1 = r_fullURL st" "sent st1 = sent st @ [r_fullURL st]"
      using try_once_guid_inv [OF Cons.prems(1) t] by auto
    show ?thesis
    proof (cases "retry_handling pc r a cst st1 err")
      case (Inl f)
      then have "retry_handling pc r a cst st1 err = Inl (out, fin)"
        using Cons.prems(2) t by simp
      then have "sent fin = sent st1" by (rule retry_handling_final_sent)
      then have "sent fin = sent st @ take 1 (r_fullURL st # map ?E (a # script))"
        using i1 by simp
      then show ?thesis by blast
    next
      case (Inr st2)
      have i2: "guid_inv u0 vals st2" "sent st2 = sent st1" "r_fullURL st2 = ?E a"
        using retry_handling_guid_inv [OF parse guid nq i1(1) Inr] by auto
      have "execute_loop pc r cst script st2 = Some (out, fin)"
        using Cons.prems(2) t Inr by simp
      from Cons.IH [OF i2(1) this] obtain n where
        "sent fin = sent st2 @ take n (r_fullURL st2 # map ?E script)" by blast
      then have "sent fin = sent st @ take (Suc n) (r_fullURL st # map ?E (a # script))"
        using i1 i2 by simp
      then show ?thesis by blast
    qed
  qed
qed

text \<open>
  Outside the query-request path the loop does regenerate the identifier. Let the query of
  the URL parse without error, with a non-empty first value of \<^verbatim>\<open>request_guid\<close>, and let
  the path be outside the query-request prefix. Then the URL sent after the retry of
  iteration \<open>i\<close> is the original URL with the query re-encoded from the parsed values in
  which \<^verbatim>\<open>request_guid\<close> has been removed and added again with the identifier generated in
  that iteration, and that identifier is what the query of the URL sent gives for
  \<^verbatim>\<open>request_guid\<close> when it is parsed.
\<close>

lemma request_guid_regenerated:
  assumes parse: "ParseQuery (RawQuery (fullURL r)) = (vals, None)"
    and guid: "values_Get vals requestGUIDKey \<noteq> []"
    and nq: "\<not> isQueryRequest pc (fullURL r)"
    and run: "execute pc r script = Some (out, fin)"
    and i: "Suc i < length (sent fin)"
  shows "sent fin ! Suc i
           = (fullURL r)\<lparr>RawQuery := values_Encode
                (values_Add (values_Del vals requestGUIDKey) requestGUIDKey (uuid (script ! i)))\<rparr>
       \<and> values_Get (Query (sent fin ! Suc i)) requestGUIDKey = uuid (script ! i)"
proof -
  let ?E = "\<lambda>a. (fullURL r)\<lparr>RawQuery := values_Encode
                 (values_Add (values_Del vals requestGUIDKey) requestGUIDKey (uuid a))\<rparr>"
  have inv: "guid_inv (fullURL r) vals (initial_state r)"
    by (simp add: guid_inv_def initial_state_def) (metis url.update_convs(2) url.surjective)
  obtain n where n: "sent fin = sent (initial_state r) @ take n (r_fullURL (initial_state r) # map ?E script)"
    using execute_loop_sent [OF parse guid nq inv] run unfolding execute_def by blast
  then have s: "sent fin = take n (fullURL r # map ?E script)" by (simp add: initial_state_def)
  have len: "Suc i < n" "Suc i < Suc (length script)" using i s by simp_all
  have "sent fin ! Suc i = (fullURL r # map ?E script) ! Suc i" using len s by simp
  also have "\<dots> = ?E (script ! i)" using len by simp
  finally show ?thesis by (simp add: fresh_guid_round_trip)
qed


lemma tracked_parse:
  "ParseQuery (RawQuery (fullURL (example_request tracked_url 0 False)))
     = ([(''request_guid'', [''g0'']), (''requestId'', [''r''])], None)"
  by code_simp

lemma tracked_guid:
  "values_Get [(''request_guid'', [''g0'']), (''requestId'', [''r''])] requestGUIDKey \<noteq> []"
  by code_simp

lemma tracked_not_query: "\<not> isQueryRequest example_consts (fullURL (example_request tracked_url 0 False))"
  by code_simp

lemma tracked_run:
  "execute example_consts (example_request tracked_url 0 False) three_attempts
     = Some (Returned (status 200) None, tracked_final)"
  by code_simp

lemma tracked_length: "Suc 1 < length (sent tracked_final)"
  by (simp add: tracked_final_def)

lemma request_guid_regenerated_example:
  "ParseQuery (RawQuery (fullURL (example_request tracked_url 0 False)))
     = ([(''request_guid'', [''g0'']), (''requestId'', [''r''])], None)
   \<and> values_Get [(''request_guid'', [''g0'']), (''requestId'', [''r''])] requestGUIDKey \<noteq> []
   \<and> \<not> isQueryRequest example_consts (fullURL (example_request tracked_url 0 False))
   \<and> execute example_consts (example_request tracked_url 0 False) three_attempts
        = Some (Returned (status 200) None, tracked_final)
   \<and> Suc 1 < length (sent tracked_final)
   \<and> sent tracked_final ! Suc 1
        = (fullURL (example_request tracked_url 0 False))\<lparr>RawQuery := values_Encode
            (values_Add (values_Del [(''request_guid'', [''g0'']), (''requestId'', [''r''])] requestGUIDKey)
               requestGUIDKey (uuid (three_attempts ! 1)))\<rparr>
   \<and> values_Get (Query (sent tracked_final ! Suc 1)) requestGUIDKey = uuid (three_attempts ! 1)"
proof -
  note c = request_guid_regenerated
    [OF tracked_parse tracked_guid tracked_not_query tracked_run tracked_length]
  show ?thesis
    by (intro conjI tracked_parse tracked_guid tracked_not_query tracked_run tracked_length
        c [THEN conjunct1] c [THEN conjunct2])
qed

text \<open>
  When the query does not parse (\<^verbatim>\<open>%zz\<close> is no escape) the replacer is the transient one,
  as the source says ("nop if invalid query parameters"), and all three attempts are sent
  with the identifier the URL came with.
\<close>

lemma unparsable_query_keeps_guid:
  "map_option (map RawQuery \<circ> sent \<circ> snd)
     (execute example_consts (example_request heartbeat_url 0 False) three_attempts)
   = Some [''request_guid=abc&bad=%zz'', ''request_guid=abc&bad=%zz'', ''request_guid=abc&bad=%zz'']"
  by code_simp

text \<open>
  On the query-request path the retry-count and retry-reason updaters and the start-time
  setter rewrite the query after the replacer. Each of them keeps the value of every key it
  does not set, so what the URL carries for the tracking key after a retry is what the
  cached query of the retry-count updater carries.
\<close>

lemma distinct_values_Add: "distinct (map fst v) \<Longrightarrow> distinct (map fst (values_Add v k x))"
proof (cases "map_of v k")
  case None
  assume "distinct (map fst v)"
  moreover have "k \<notin> fst ` set v" using None by (simp add: map_of_eq_None_iff)
  ultimately show ?thesis using None by (simp add: values_Add_def)
next
  case (Some ys)
  assume d: "distinct (map fst v)"
  have "map fst (map (\<lambda>kv. if fst kv = k then (fst kv, snd kv @ [x]) else kv) v) = map fst v"
    by (induction v) auto
  moreover have "values_Add v k x = map (\<lambda>kv. if fst kv = k then (fst kv, snd kv @ [x]) else kv) v"
    using Some by (simp add: values_Add_def)
  ultimately have "map fst (values_Add v k x) = map fst v" by (simp only:)
  then show ?thesis using d by (simp only:)
qed

lemma distinct_values_Del: "distinct (map fst v) \<Longrightarrow> distinct (map fst (values_Del v k))"
  by (simp add: values_Del_def distinct_map_filter)

lemma map_of_values_Del: "map_of (values_Del v k) k' = (if k' = k then None else map_of v k')"
  by (induction v) (auto simp: values_Del_def)

lemma distinct_fold_Add:
  "distinct (map fst m) \<Longrightarrow> distinct (map fst (foldl (\<lambda>m p. values_Add m (fst p) (snd p)) m ps))"
  by (induction ps arbitrary: m) (simp_all add: distinct_values_Add)

lemma carries_Add: "carries g v \<Longrightarrow> k \<noteq> requestGUIDKey \<Longrightarrow> carries g (values_Add v k x)"
  by (simp add: carries_def distinct_values_Add map_of_values_Add)

lemma carries_Del: "carries g v \<Longrightarrow> k \<noteq> requestGUIDKey \<Longrightarrow> carries g (values_Del v k)"
  by (simp add: carries_def distinct_values_Del map_of_values_Del)

lemma filter_key_distinct:
  "distinct (map fst v) \<Longrightarrow> map_of v k = Some vs \<Longrightarrow> filter (\<lambda>kv. fst kv = k) v = [(k, vs)]"
proof (induction v)
  case Nil
  then show ?case by simp
next
  case (Cons p v)
  show ?case
  proof (cases "fst p = k")
    case True
    then have "p = (k, vs)" using Cons.prems(2) by (cases p) simp
    moreover have "k \<notin> fst ` set v" using Cons.prems(1) True by auto
    then have "\<forall>q \<in> set v. fst q \<noteq> k" by force
    then have "filter (\<lambda>kv. fst kv = k) v = []" by (simp add: filter_empty_conv)
    ultimately show ?thesis by simp
  next
    case False
    then show ?thesis using Cons by (cases p) auto
  qed
qed

lemma ParseQuery_Encode:
  "ParseQuery (values_Encode v)
     = (foldl (\<lambda>m p. values_Add m (fst p) (snd p)) [] (flat_pairs (sort_key fst v)), None)"
  by (simp add: ParseQuery_def values_Encode_join parseQuery_join)

lemma carries_round_trip:
  assumes "carries g v"
  shows "carries g (fst (ParseQuery (values_Encode v)))"
proof -
  let ?ps = "flat_pairs (sort_key fst v)"
  have "filter (\<lambda>kv. fst kv = requestGUIDKey) v = [(requestGUIDKey, [g])]"
    using assms by (intro filter_key_distinct) (simp_all add: carries_def)
  then have "filter (\<lambda>kv. fst kv = requestGUIDKey) (sort_key fst v) = [(requestGUIDKey, [g])]"
    by (simp add: filter_sort)
  then have "filter (\<lambda>p. fst p = requestGUIDKey) ?ps = flat_pairs [(requestGUIDKey, [g])]"
    by (simp only: filter_flat_pairs)
  then have "filter (\<lambda>p. fst p = requestGUIDKey) ?ps = [(requestGUIDKey, g)]"
    by (simp add: flat_pairs_def)
  then have "map_of (foldl (\<lambda>m p. values_Add m (fst p) (snd p)) [] ?ps) requestGUIDKey = Some [g]"
    by (rule map_of_fold_Add_single) simp
  moreover have "distinct (map fst (foldl (\<lambda>m p. values_Add m (fst p) (snd p)) [] ?ps))"
    by (rule distinct_fold_Add) simp
  ultimately show ?thesis by (simp add: ParseQuery_Encode carries_def)
qed

lemma carries_fresh: "carries g (fst (ParseQuery (values_Encode
    (values_Add (values_Del v requestGUIDKey) requestGUIDKey g))))"
proof -
  let ?ps = "flat_pairs (sort_key fst (values_Add (values_Del v requestGUIDKey) requestGUIDKey g))"
  have "map_of (foldl (\<lambda>m p. values_Add m (fst p) (snd p)) [] ?ps) requestGUIDKey = Some [g]"
    by (rule map_of_fold_Add_single [OF fresh_guid_pairs]) simp
  moreover have "distinct (map fst (foldl (\<lambda>m p. values_Add m (fst p) (snd p)) [] ?ps))"
    by (rule distinct_fold_Add) simp
  ultimately show ?thesis by (simp add: ParseQuery_Encode carries_def)
qed

lemma carries_Get: "carries g v \<Longrightarrow> values_Get (Query (u\<lparr>RawQuery := values_Encode v\<rparr>)) requestGUIDKey = g"
  using carries_round_trip [of g v] by (simp add: Query_def carries_def values_Get_def)


lemma other_keys:
  "retryCountKey \<noteq> requestGUIDKey" "retryReasonKey \<noteq> requestGUIDKey"
  "clientStartTimeKey \<noteq> requestGUIDKey"
  by (simp_all add: retryCountKey_def retryReasonKey_def clientStartTimeKey_def requestGUIDKey_def)

lemma Query_Encode: "Query (u\<lparr>RawQuery := values_Encode z\<rparr>) = fst (ParseQuery (values_Encode z))"
  by (simp add: Query_def)

lemma reason_step:
  assumes "carries g z"
  shows "\<exists>z'. retryReason_replaceOrAdd s n (u0\<lparr>RawQuery := values_Encode z\<rparr>)
              = u0\<lparr>RawQuery := values_Encode z'\<rparr> \<and> carries g z'"
proof (cases s)
  case transientRetryReasonUpdater
  then show ?thesis using assms by auto
next
  case retryReasonUpdate
  have "carries g (values_Add (values_Del (fst (ParseQuery (values_Encode z))) retryReasonKey)
      retryReasonKey (Itoa n))"
    by (intro carries_Add carries_Del carries_round_trip assms other_keys)
  then show ?thesis using retryReasonUpdate by (auto simp: Query_Encode)
qed

lemma start_step:
  assumes "carries g z"
  shows "\<exists>z'. ensureClientStartTimeIsSet pc (u0\<lparr>RawQuery := values_Encode z\<rparr>) t
              = u0\<lparr>RawQuery := values_Encode z'\<rparr> \<and> carries g z'"
proof -
  have "carries g (values_Add (fst (ParseQuery (values_Encode z))) clientStartTimeKey t)"
    by (intro carries_Add carries_round_trip assms other_keys)
  then show ?thesis using assms
    by (auto simp: ensureClientStartTimeIsSet_def Query_Encode)
qed

lemma mutateURL_resolved:
  assumes "(case guidReplacer st of None \<Rightarrow> newRequestGUIDReplace (r_fullURL st) | Some x \<Rightarrow> x) = g0"
    and "replace g0 (uuid a) (r_fullURL st) = (g', u1)"
    and "(case countUpdater st of None \<Rightarrow> newRetryCountUpdater pc u1 | Some x \<Rightarrow> x) = c0"
    and "retryCount_replaceOrAdd c0 (retryCounter st + 1) u1 = (c', u2)"
  shows "mutateURL pc r a cst st
     = st\<lparr>r_fullURL := ensureClientStartTimeIsSet pc
             (retryReason_replaceOrAdd
                (case reasonUpdater st of None \<Rightarrow> newRetryReasonUpdater pc u2 (cfg r) | Some x \<Rightarrow> x)
                (case res st of None \<Rightarrow> 0 | Some x \<Rightarrow> StatusCode x) u2) cst,
           retryCounter := retryCounter st + 1, guidReplacer := Some g', countUpdater := Some c',
           reasonUpdater := Some (case reasonUpdater st of
              None \<Rightarrow> newRetryReasonUpdater pc u2 (cfg r) | Some x \<Rightarrow> x)\<rparr>"
  by (simp add: mutateURL_def Let_def assms)

lemma mutateURL_tail:
  assumes g0: "(case guidReplacer st of None \<Rightarrow> newRequestGUIDReplace (r_fullURL st) | Some x \<Rightarrow> x)
        = requestGUIDReplace v"
    and url: "r_fullURL st = u0\<lparr>RawQuery := q\<rparr>"
    and c0: "(case countUpdater st of None \<Rightarrow> newRetryCountUpdater pc
          (u0\<lparr>RawQuery := values_Encode (values_Add (values_Del v requestGUIDKey) requestGUIDKey (uuid a))\<rparr>)
        | Some x \<Rightarrow> x) = retryCountUpdate w"
    and w: "carries g w"
  shows "stale_inv u0 g (mutateURL pc r a cst st)"
proof -
  let ?v' = "values_Add (values_Del v requestGUIDKey) requestGUIDKey (uuid a)"
  let ?w' = "values_Add (values_Del w retryCountKey) retryCountKey (Itoa (retryCounter st + 1))"
  let ?u1 = "u0\<lparr>RawQuery := values_Encode ?v'\<rparr>"
  let ?u2 = "u0\<lparr>RawQuery := values_Encode ?w'\<rparr>"
  let ?s = "case reasonUpdater st of None \<Rightarrow> newRetryReasonUpdater pc ?u2 (cfg r) | Some x \<Rightarrow> x"
  have w': "carries g ?w'" by (intro carries_Add carries_Del w other_keys)
  have rep: "replace (requestGUIDReplace v) (uuid a) (r_fullURL st) = (requestGUIDReplace ?v', ?u1)"
    by (simp add: Let_def url)
  have cnt: "retryCount_replaceOrAdd (retryCountUpdate w) (retryCounter st + 1) ?u1
      = (retryCountUpdate ?w', ?u2)"
    by (simp add: Let_def)
  note m = mutateURL_resolved [OF g0 rep c0 cnt, of r cst]
  obtain z3 where z3: "retryReason_replaceOrAdd ?s (case res st of None \<Rightarrow> 0 | Some x \<Rightarrow> StatusCode x) ?u2
      = u0\<lparr>RawQuery := values_Encode z3\<rparr>" "carries g z3"
    using reason_step [OF w'] by blast
  obtain z4 where z4: "ensureClientStartTimeIsSet pc (u0\<lparr>RawQuery := values_Encode z3\<rparr>) cst
      = u0\<lparr>RawQuery := values_Encode z4\<rparr>" "carries g z4"
    using start_step [OF z3(2)] by blast
  have "r_fullURL (mutateURL pc r a cst st) = u0\<lparr>RawQuery := values_Encode z4\<rparr>"
    by (simp add: m z3(1) z4(1))
  moreover have "guidReplacer (mutateURL pc r a cst st) = Some (requestGUIDReplace ?v')"
    "countUpdater (mutateURL pc r a cst st) = Some (retryCountUpdate ?w')"
    "reasonUpdater (mutateURL pc r a cst st) \<noteq> None"
    by (simp_all add: m)
  ultimately show ?thesis using z4(2) w' unfolding stale_inv_def by blast
qed

lemma mutateURL_first_retry:
  assumes parse: "ParseQuery (RawQuery u0) = (vals, None)"
    and guid: "values_Get vals requestGUIDKey \<noteq> []"
    and qr: "isQueryRequest pc u0"
    and st: "r_fullURL st = u0" "guidReplacer st = None" "countUpdater st = None"
  shows "stale_inv u0 (uuid a) (mutateURL pc r a cst st)"
proof (rule mutateURL_tail)
  let ?v' = "values_Add (values_Del vals requestGUIDKey) requestGUIDKey (uuid a)"
  show "(case guidReplacer st of None \<Rightarrow> newRequestGUIDReplace (r_fullURL st) | Some x \<Rightarrow> x)
        = requestGUIDReplace vals"
    using parse guid st by (simp add: newRequestGUIDReplace_def)
  show "r_fullURL st = u0\<lparr>RawQuery := RawQuery u0\<rparr>" using st by simp
  show "(case countUpdater st of None \<Rightarrow> newRetryCountUpdater pc (u0\<lparr>RawQuery := values_Encode ?v'\<rparr>)
        | Some x \<Rightarrow> x) = retryCountUpdate (fst (ParseQuery (values_Encode ?v')))"
    using st qr by (simp add: newRetryCountUpdater_def ParseQuery_Encode)
  show "carries (uuid a) (fst (ParseQuery (values_Encode ?v')))" by (rule carries_fresh)
qed

lemma mutateURL_later_retry:
  assumes "stale_inv u0 g st"
  shows "stale_inv u0 g (mutateURL pc r a cst st)"
proof -
  obtain z v w where "r_fullURL st = u0\<lparr>RawQuery := values_Encode z\<rparr>"
    "guidReplacer st = Some (requestGUIDReplace v)"
    "countUpdater st = Some (retryCountUpdate w)" "carries g w"
    using assms unfolding stale_inv_def by blast
  then show ?thesis by (intro mutateURL_tail [where v = v and w = w and q = "values_Encode z"]) simp_all
qed


lemma stale_inv_cong:
  "r_fullURL st' = r_fullURL st \<Longrightarrow> guidReplacer st' = guidReplacer st
   \<Longrightarrow> countUpdater st' = countUpdater st \<Longrightarrow> reasonUpdater st' = reasonUpdater st
   \<Longrightarrow> stale_inv u0 g st' = stale_inv u0 g st"
  by (simp add: stale_inv_def)

lemma stale_inv_guid:
  "stale_inv u0 g st \<Longrightarrow> values_Get (Query (r_fullURL st)) requestGUIDKey = g"
  by (auto simp: stale_inv_def carries_Get)

lemma retry_handling_Inr:
  assumes "retry_handling pc r a cst st err = Inr st2"
  shows "\<exists>st1. st2 = (mutateURL pc r a cst st1)\<lparr>slept := slept (mutateURL pc r a cst st1) @ [sleepTime st1]\<rparr>
           \<and> r_fullURL st1 = r_fullURL st \<and> guidReplacer st1 = guidReplacer st
           \<and> countUpdater st1 = countUpdater st \<and> reasonUpdater st1 = reasonUpdater st
           \<and> sent st1 = sent st"
proof -
  obtain d where d: "decorr defaultWaitAlgo (rand a) (retryCounter st) (sleepTime st) = Inr d"
    using assms by (auto simp: retry_handling_def split: sum.splits)
  define st1 where "st1 = st\<lparr>sleepTime := d,
      totalTimeout := (if totalTimeout st > 0 then wrap64 (totalTimeout st - d) else totalTimeout st)\<rparr>"
  have "st2 = (mutateURL pc r a cst st1)\<lparr>slept := slept (mutateURL pc r a cst st1) @ [sleepTime st1]\<rparr>"
    using assms d unfolding retry_handling_def st1_def
    by (simp add: Let_def split: if_splits option.splits)
  then show ?thesis by (intro exI [of _ st1]) (simp add: st1_def)
qed

lemma retry_handling_stale:
  assumes "stale_inv u0 g st" "retry_handling pc r a cst st err = Inr st2"
  shows "stale_inv u0 g st2 \<and> sent st2 = sent st"
proof -
  obtain st1 where st1: "st2 = (mutateURL pc r a cst st1)\<lparr>slept := slept (mutateURL pc r a cst st1) @ [sleepTime st1]\<rparr>"
    "r_fullURL st1 = r_fullURL st" "guidReplacer st1 = guidReplacer st"
    "countUpdater st1 = countUpdater st" "reasonUpdater st1 = reasonUpdater st" "sent st1 = sent st"
    using retry_handling_Inr [OF assms(2)] by blast
  have "stale_inv u0 g st1" using assms(1) stale_inv_cong [OF st1(2-5)] by simp
  then have "stale_inv u0 g (mutateURL pc r a cst st1)" by (rule mutateURL_later_retry)
  moreover have "stale_inv u0 g st2 = stale_inv u0 g (mutateURL pc r a cst st1)"
    by (rule stale_inv_cong) (simp_all add: st1(1))
  ultimately show ?thesis by (simp add: st1 mutateURL_logs)
qed

lemma execute_loop_stale:
  "stale_inv u0 g st \<Longrightarrow> execute_loop pc r cst script st = Some (out, fin)
   \<Longrightarrow> \<exists>us. sent fin = sent st @ us \<and> (\<forall>u \<in> set us. values_Get (Query u) requestGUIDKey = g)"
proof (induction script arbitrary: st)
  case Nil
  then show ?case by simp
next
  case (Cons a script)
  note g = stale_inv_guid [OF Cons.prems(1)]
  show ?case
  proof (cases "try_once pc r a st")
    case (Inl f)
    then have "try_once pc r a st = Inl (out, fin)" using Cons.prems(2) by simp
    then have "sent fin = sent st @ [] \<or> sent fin = sent st @ [r_fullURL st]"
      using try_once_final_sent by fastforce
    then show ?thesis using g by fastforce
  next
    case (Inr p)
    obtain st1 err where p: "p = (st1, err)" by (cases p)
    have t: "try_once pc r a st = Inr (st1, err)" using Inr p by simp
    have st1: "st1 = st\<lparr>res := fst (do_result a), sent := sent st @ [r_fullURL st]\<rparr>"
      using t by (rule try_once_Inr)
    have "stale_inv u0 g st1 = stale_inv u0 g st" by (rule stale_inv_cong) (simp_all add: st1)
    then have i1: "stale_inv u0 g st1" using Cons.prems(1) by simp
    have s1: "sent st1 = sent st @ [r_fullURL st]" by (simp add: st1)
    show ?thesis
    proof (cases "retry_handling pc r a cst st1 err")
      case (Inl f)
      then have "retry_handling pc r a cst st1 err = Inl (out, fin)"
        using Cons.prems(2) t by simp
      then have "sent fin = sent st1" by (rule retry_handling_final_sent)
      then have "sent fin = sent st @ [r_fullURL st]" using s1 by simp
      then show ?thesis using g by fastforce
    next
      case (Inr st2)
      have i2: "stale_inv u0 g st2" "sent st2 = sent st1"
        using retry_handling_stale [OF i1 Inr] by auto
      have "execute_loop pc r cst script st2 = Some (out, fin)"
        using Cons.prems(2) t Inr by simp
      from Cons.IH [OF i2(1) this] obtain us where
        us: "sent fin = sent st2 @ us" "\<forall>u \<in> set us. values_Get (Query u) requestGUIDKey = g"
        by blast
      have "sent fin = sent st @ (r_fullURL st # us)" using us(1) i2(2) s1 by simp
      moreover have "\<forall>u \<in> set (r_fullURL st # us). values_Get (Query u) requestGUIDKey = g"
        using us(2) g by simp
      ultimately show ?thesis by blast
    qed
  qed
qed

text \<open>
  On a query request whose query parses and carries a non-empty tracking identifier, every
  retry, the first and all later ones, is sent with the identifier generated in the first
  retry.
\<close>

lemma first_identifier_sticks:
  assumes parse: "ParseQuery (RawQuery (fullURL r)) = (vals, None)"
    and guid: "values_Get vals requestGUIDKey \<noteq> []"
    and qr: "isQueryRequest pc (fullURL r)"
    and run: "execute pc r script = Some (out, fin)"
    and i: "Suc i < length (sent fin)"
  shows "values_Get (Query (sent fin ! Suc i)) requestGUIDKey = uuid (script ! 0)"
proof -
  let ?st = "initial_state r"
  let ?cst = "Itoa (currentTime r)"
  obtain a rest where script: "script = a # rest"
    using run by (cases script) (simp_all add: execute_def)
  have run': "execute_loop pc r ?cst (a # rest) ?st = Some (out, fin)"
    using run script by (simp add: execute_def)
  have s0: "sent ?st = []" "r_fullURL ?st = fullURL r" by (simp_all add: initial_state_def)
  show ?thesis
  proof (cases "try_once pc r a ?st")
    case (Inl f)
    then have "try_once pc r a ?st = Inl (out, fin)" using run' by simp
    then have "sent fin = sent ?st \<or> sent fin = sent ?st @ [r_fullURL ?st]"
      by (rule try_once_final_sent)
    then show ?thesis using i s0 by auto
  next
    case (Inr p)
    obtain st1 err where p: "p = (st1, err)" by (cases p)
    have t: "try_once pc r a ?st = Inr (st1, err)" using Inr p by simp
    have st1: "st1 = ?st\<lparr>res := fst (do_result a), sent := sent ?st @ [r_fullURL ?st]\<rparr>"
      using t by (rule try_once_Inr)
    show ?thesis
    proof (cases "retry_handling pc r a ?cst st1 err")
      case (Inl f)
      then have "retry_handling pc r a ?cst st1 err = Inl (out, fin)" using run' t by simp
      then have "sent fin = sent st1" by (rule retry_handling_final_sent)
      then show ?thesis using i by (simp add: st1 s0)
    next
      case (Inr st2)
      obtain st1' where st1': "st2 = (mutateURL pc r a ?cst st1')\<lparr>slept := slept (mutateURL pc r a ?cst st1') @ [sleepTime st1']\<rparr>"
        "r_fullURL st1' = r_fullURL st1" "guidReplacer st1' = guidReplacer st1"
        "countUpdater st1' = countUpdater st1" "sent st1' = sent st1"
        using retry_handling_Inr [OF Inr] by blast
      have "stale_inv (fullURL r) (uuid a) (mutateURL pc r a ?cst st1')"
        using st1' by (intro mutateURL_first_retry [OF parse guid qr]) (simp_all add: st1 initial_state_def)
      moreover have "stale_inv (fullURL r) (uuid a) st2
          = stale_inv (fullURL r) (uuid a) (mutateURL pc r a ?cst st1')"
        by (rule stale_inv_cong) (simp_all add: st1'(1))
      ultimately have i2: "stale_inv (fullURL r) (uuid a) st2" by simp
      have s2: "sent st2 = [fullURL r]" by (simp add: st1' mutateURL_logs st1 s0)
      have "execute_loop pc r ?cst rest st2 = Some (out, fin)" using run' t Inr by simp
      from execute_loop_stale [OF i2 this] obtain us where
        us: "sent fin = sent st2 @ us" "\<forall>u \<in> set us. values_Get (Query u) requestGUIDKey = uuid a"
        by blast
      have "sent fin ! Suc i = us ! i" "i < length us" using us(1) s2 i by simp_all
      then show ?thesis using us(2) script by simp
    qed
  qed
qed


text \<open>
  Claim C2: every retry of an operation whose URL carries \<^verbatim>\<open>request_guid\<close> is sent with a
  freshly generated identifier, distinct from those of the earlier attempts. The code breaks
  it on the query-request path. The retry-count updater keeps the query it parsed in the
  first retry, the identifier \<open>g1\<close> of that retry included, and in every later retry writes
  it back over the URL that the replacer has just given the new identifier. On a query
  request answered 503, 503, 200 the three attempts are sent with \<open>g0\<close>, \<open>g1\<close> and again
  \<open>g1\<close>; the identifier \<open>g2\<close> generated for the second retry is never sent.
\<close>

theorem query_request_guid_clobbered:
  "map_option (map RawQuery \<circ> sent \<circ> snd)
     (execute example_consts (example_request query_url 0 False) three_attempts)
   = Some [''request_guid=g0'',
           ''clientStartTime=1700&request_guid=g1&retryCount=1&retryReason=503'',
           ''clientStartTime=1700&request_guid=g1&retryCount=2&retryReason=503'']"
  by code_simp

section \<open>The backoff inside the loop\<close>

text \<open>
  In the default configuration \<^verbatim>\<open>decorr\<close> maps a whole number of seconds to a whole number
  of seconds. The loop starts from a sleep of zero and feeds each result back, so with a
  random source that keeps its contract \<^verbatim>\<open>execute\<close> never reaches the panic of
  \<^verbatim>\<open>Int63n\<close>.
\<close>

lemma decorr_whole_seconds:
  assumes src: "rand_ok src" and s: "whole_seconds sleep"
  shows "\<exists>d. decorr defaultWaitAlgo src attempt sleep = Inr d \<and> whole_seconds d"
proof -
  obtain k where k: "sleep = k * Second" "0 \<le> k" "k \<le> 160" using s by (auto simp: whole_seconds_def)
  let ?t = "3 * sleep - 5 * Second"
  have t: "?t = (3 * k - 5) * Second" by (simp add: k algebra_simps)
  have w3: "wrap64 (3 * sleep) = 3 * sleep" using k by (intro wrap64_id) (auto simp: Second_def)
  have wt: "wrap64 ?t = ?t" using k by (intro wrap64_id) (auto simp: Second_def)
  have base: "base defaultWaitAlgo = 5 * Second" "cap defaultWaitAlgo = 160 * Second"
    by (simp_all add: defaultWaitAlgo_def)
  consider (pos) "2 \<le> k" | (neg) "k \<le> 1" by linarith
  then show ?thesis
  proof cases
    case pos
    then have tp: "0 < ?t" "Second \<le> ?t" "?t < 2 ^ 63" using k by (auto simp: Second_def)
    have q: "?t div Second = 3 * k - 5" unfolding t by (simp add: Second_def)
    obtain d where d: "randSecondDuration src ?t = Inr d" "0 \<le> d" "d < ?t" "d = src (?t div Second) * Second"
      using randSecondDuration_ok [OF src tp(2) tp(3)] by blast
    have v: "0 \<le> src (3 * k - 5)" using src pos by (simp add: rand_ok_def)
    have wd: "wrap64 (d + 5 * Second) = d + 5 * Second" using d k by (intro wrap64_id) (auto simp: Second_def)
    have "whole_seconds (min (160 * Second) (d + 5 * Second))"
    proof (cases "160 * Second \<le> d + 5 * Second")
      case True
      then show ?thesis by (auto simp: whole_seconds_def min_def)
    next
      case False
      have dd: "d = src (3 * k - 5) * Second" using d(4) q by simp
      have "d + 5 * Second = (src (3 * k - 5) + 5) * Second" by (simp add: dd algebra_simps)
      moreover have "src (3 * k - 5) + 5 \<le> 160" using False dd by (simp add: Second_def)
      ultimately show ?thesis using False v by (auto simp: whole_seconds_def min_def)
    qed
    then show ?thesis using tp(1) d(1) by (simp add: decorr_def Let_def base w3 wt wd durationMin_def)
  next
    case neg
    then have tn: "?t < 0" "Second \<le> - ?t" "- ?t < 2 ^ 63" using k by (auto simp: Second_def)
    have wn: "wrap64 (- ?t) = - ?t" using k by (intro wrap64_id) (auto simp: Second_def)
    have "- ?t = (5 - 3 * k) * Second" by (simp add: k algebra_simps)
    then have q: "(- ?t) div Second = 5 - 3 * k" by (simp add: Second_def)
    obtain d where d: "randSecondDuration src (- ?t) = Inr d" "0 \<le> d" "d < - ?t" "d = src ((- ?t) div Second) * Second"
      using randSecondDuration_ok [OF src tn(2) tn(3)] by blast
    have v: "0 \<le> src (5 - 3 * k)" "src (5 - 3 * k) < 5 - 3 * k" using src neg by (simp_all add: rand_ok_def)
    have wd: "wrap64 (d + 3 * sleep) = d + 3 * sleep" using d k by (intro wrap64_id) (auto simp: Second_def)
    have dd: "d = src (5 - 3 * k) * Second" using d(4) q by simp
    have e: "d + 3 * sleep = (src (5 - 3 * k) + 3 * k) * Second" by (simp add: dd k algebra_simps)
    have "d + 3 * sleep \<le> 160 * Second" using e v k by (simp add: Second_def)
    then have "min (160 * Second) (d + 3 * sleep) = (src (5 - 3 * k) + 3 * k) * Second" using e by simp
    moreover have "0 \<le> src (5 - 3 * k) + 3 * k" "src (5 - 3 * k) + 3 * k \<le> 160" using v k by auto
    ultimately have "whole_seconds (min (160 * Second) (d + 3 * sleep))"
      unfolding whole_seconds_def by blast
    moreover have wn': "wrap64 (5 * Second - 3 * sleep) = 5 * Second - 3 * sleep"
      using wn by simp
    ultimately show ?thesis using tn(1) d(1)
      by (simp add: decorr_def Let_def base w3 wt wn' wd durationMin_def)
  qed
qed

lemma isRetryableError_panic: "isRetryableError pc e = Inl p \<Longrightarrow> p = NilDereference"
  by (cases "(pc, e)" rule: isRetryableError.cases) (auto split: if_splits)

lemma try_once_panic: "try_once pc r a st = Inl (Panicked p, fin) \<Longrightarrow> p = NilDereference"
  by (auto simp: try_once_def Let_def split: option.splits sum.splits prod.splits if_splits
      dest: isRetryableError_panic)

lemma retry_handling_whole_seconds:
  assumes "rand_ok (rand a)" "whole_seconds (sleepTime st)"
  shows "(\<forall>p fin. retry_handling pc r a cst st err \<noteq> Inl (Panicked p, fin))
       \<and> (\<forall>st2. retry_handling pc r a cst st err = Inr st2 \<longrightarrow> whole_seconds (sleepTime st2))"
proof -
  obtain d where d: "decorr defaultWaitAlgo (rand a) (retryCounter st) (sleepTime st) = Inr d"
    "whole_seconds d"
    using decorr_whole_seconds [OF assms] by blast
  show ?thesis
    by (auto simp: retry_handling_def Let_def d mutateURL_sleepTime timeoutResult_def
        split: option.splits if_splits)
qed

lemma execute_loop_no_backoff_panic:
  "\<forall>a \<in> set script. rand_ok (rand a) \<Longrightarrow> whole_seconds (sleepTime st)
   \<Longrightarrow> execute_loop pc r cst script st = Some (out, fin) \<Longrightarrow> out \<noteq> Panicked Int63nInvalidArgument"
proof (induction script arbitrary: st)
  case Nil
  then show ?case by simp
next
  case (Cons a script)
  show ?case
  proof (cases "try_once pc r a st")
    case (Inl f)
    then have "try_once pc r a st = Inl (out, fin)" using Cons.prems(3) by simp
    then show ?thesis using try_once_panic by fastforce
  next
    case (Inr q)
    obtain st1 err where q: "q = (st1, err)" by (cases q)
    have st1: "st1 = st\<lparr>res := fst (do_result a), sent := sent st @ [r_fullURL st]\<rparr>"
      using Inr q try_once_Inr by simp
    have w1: "whole_seconds (sleepTime st1)" using Cons.prems(2) by (simp add: st1)
    have a: "rand_ok (rand a)" using Cons.prems(1) by simp
    note rh = retry_handling_whole_seconds [OF a w1, of pc r cst err]
    show ?thesis
    proof (cases "retry_handling pc r a cst st1 err")
      case (Inl f)
      then have "retry_handling pc r a cst st1 err = Inl (out, fin)"
        using Cons.prems(3) Inr q by simp
      then show ?thesis using rh by auto
    next
      case (Inr st2)
      then have "whole_seconds (sleepTime st2)" using rh by simp
      moreover have "execute_loop pc r cst script st2 = Some (out, fin)"
        using Cons.prems(3) \<open>try_once pc r a st = Inr q\<close> q Inr by simp
      ultimately show ?thesis using Cons.IH Cons.prems(1) by simp
    qed
  qed
qed

lemma execute_no_backoff_panic:
  assumes "\<forall>a \<in> set script. rand_ok (rand a)" "execute pc r script = Some (out, fin)"
  shows "out \<noteq> Panicked Int63nInvalidArgument"
proof -
  have "whole_seconds (sleepTime (initial_state r))"
    by (auto simp: whole_seconds_def initial_state_def)
  then show ?thesis using execute_loop_no_backoff_panic assms unfolding execute_def by blast
qed


section \<open>The client start time, once set\<close>

text \<open>
  What the setter writes is found again when the query is parsed, so a second application,
  with whatever timestamp, changes nothing: the timestamp of the first application stays.
\<close>

lemma map_of_fold_Add_present:
  "(\<exists>p \<in> set ps. fst p = k) \<or> map_of m k \<noteq> None
   \<Longrightarrow> map_of (foldl (\<lambda>m p. values_Add m (fst p) (snd p)) m ps) k \<noteq> None"
proof (induction ps arbitrary: m)
  case Nil
  then show ?case by simp
next
  case (Cons p ps)
  have "(\<exists>q \<in> set ps. fst q = k) \<or> map_of (values_Add m (fst p) (snd p)) k \<noteq> None"
    using Cons.prems by (auto simp: map_of_values_Add)
  then show ?case using Cons.IH by simp
qed

lemma values_Add_member: "\<exists>ys. (k, ys @ [x]) \<in> set (values_Add v k x)"
proof (cases "map_of v k")
  case None
  then show ?thesis by (auto simp: values_Add_def intro: exI [of _ "[]"])
next
  case (Some ys)
  then have "(k, ys) \<in> set v" by (rule map_of_SomeD)
  then have "(k, ys @ [x]) \<in> set (map (\<lambda>kv. if fst kv = k then (fst kv, snd kv @ [x]) else kv) v)"
    by force
  then show ?thesis using Some by (auto simp: values_Add_def)
qed

lemma values_Has_after_Add:
  "values_Has (Query (u\<lparr>RawQuery := values_Encode (values_Add v k x)\<rparr>)) k"
proof -
  obtain ys where "(k, ys @ [x]) \<in> set (sort_key fst (values_Add v k x))"
    using values_Add_member [of k x v] by auto
  then have "(k, x) \<in> set (flat_pairs (sort_key fst (values_Add v k x)))"
    unfolding flat_pairs_def by force
  then have "\<exists>p \<in> set (flat_pairs (sort_key fst (values_Add v k x))). fst p = k" by force
  then have "map_of (foldl (\<lambda>m p. values_Add m (fst p) (snd p)) []
      (flat_pairs (sort_key fst (values_Add v k x)))) k \<noteq> None"
    by (intro map_of_fold_Add_present) simp
  then show ?thesis
    by (simp add: values_Has_def Query_def ParseQuery_def values_Encode_join parseQuery_join)
qed

lemma clientStartTime_present_after_setter:
  "isQueryRequest pc u \<Longrightarrow> values_Has (Query (ensureClientStartTimeIsSet pc u t)) clientStartTimeKey"
  by (simp add: ensureClientStartTimeIsSet_def values_Has_after_Add)

lemma clientStartTime_set_once:
  "ensureClientStartTimeIsSet pc (ensureClientStartTimeIsSet pc u t) t' = ensureClientStartTimeIsSet pc u t"
proof (cases "isQueryRequest pc u")
  case True
  then have "isQueryRequest pc (ensureClientStartTimeIsSet pc u t)"
    by (simp add: ensureClientStartTimeIsSet_def)
  then show ?thesis
    using clientStartTime_present_after_setter [OF True, of t]
    by (subst ensureClientStartTimeIsSet_def) simp
next
  case False
  then show ?thesis by (simp add: ensureClientStartTimeIsSet_def)
qed


end
